theory Spec2Isabelle
  imports Complex_Main
begin

section \<open>Data model\<close>

text \<open>
  The globe view of \<^verbatim>\<open>src/components/WorldMap.tsx\<close> over the trip records of
  \<^verbatim>\<open>src/types.ts\<close>. JavaScript numbers are modelled as real numbers (no rounding, no
  \<^verbatim>\<open>NaN\<close>, no infinities); an optional string is a \<open>string option\<close>. A geographic
  point is the pair \<open>(longitude, latitude)\<close> in degrees, as d3 has it; a screen point is
  \<open>(x, y)\<close>.
\<close>

type_synonym point = "real \<times> real"

record Coordinates =
  lat :: real
  lng :: real

record LocationData =
  name :: string
  coords :: Coordinates
  country :: "string option"
  state :: "string option"
  city :: "string option"

text \<open>Of a trip the component reads the identifier and the two locations only.\<close>

record Trip =
  trip_id :: string
  origin :: LocationData
  destination :: LocationData

datatype ViewKind = routes | visited

text \<open>
  The properties of the component. \<open>hasOnZoomChange\<close> says whether the optional callback
  \<^verbatim>\<open>onZoomChange\<close> was passed; \<^verbatim>\<open>className\<close> and \<^verbatim>\<open>hideBackground\<close> only style
  the output and are left out.
\<close>

record WorldMapProps =
  trips :: "Trip list"
  highlightTrip :: "Trip option"
  viewMode :: ViewKind
  interactionEnabled :: bool
  hasOnZoomChange :: bool
  enableWordCloud :: bool

text \<open>
  The two functions of the library d3-geo that the camera uses. The library is not part
  of the repository, so the component is modelled over any implementation of them.
\<close>

record D3Geo =
  geoDistance :: "point \<Rightarrow> point \<Rightarrow> real"
  geoInterpolate :: "point \<Rightarrow> point \<Rightarrow> real \<Rightarrow> point"

record PointerEvent =
  pointerId :: int
  clientX :: real
  clientY :: real

record Touch =
  touchY :: real

datatype js_error = TypeError | DOMException

text \<open>
  What a handler does to the browser: the calls it makes, in order. The browser side of
  a handler is the window height and the pointer-capture methods of the event's target;
  a capture method that throws is \<open>Some e\<close>.
\<close>

datatype dom_call =
  StopPropagation
  | SetPointerCapture int
  | ReleasePointerCapture int
  | OnZoomChange bool

record Dom =
  innerHeight :: real
  hasPointerCapture :: "int \<Rightarrow> bool"
  setPointerCapture :: "int \<Rightarrow> js_error option"
  releasePointerCapture :: "int \<Rightarrow> js_error option"

text \<open>
  The state of one globe view: the React state (rotation, zoom, drag flag) and the refs
  (default camera, last pointer position, active-pointer cache, pinch baseline).
\<close>

record ViewState =
  rotation :: point
  zoom :: real
  isDragging :: bool
  defaultState :: "(real \<times> point) option"
  lastPos :: "point option"
  evCache :: "PointerEvent list"
  prevDiff :: real

definition initialState :: ViewState where
  "initialState =
     \<lparr>rotation = (0, 0), zoom = 1, isDragging = False, defaultState = None,
      lastPos = None, evCache = [], prevDiff = -1\<rparr>"

type_synonym outcome = "js_error + ViewState \<times> dom_call list"

section \<open>Camera controller: autoCenter\<close>

record LocCount =
  count :: int
  loc_coords :: point

definition point_of :: "LocationData \<Rightarrow> point" where
  "point_of l = (lng (coords l), lat (coords l))"

definition minSpanRad :: real where
  "minSpanRad = 0.001"

definition paddingFactor :: "bool \<Rightarrow> real" where
  "paddingFactor interactive = (if interactive then 1.5 else 1.8)"

definition targetSpan :: "real \<Rightarrow> bool \<Rightarrow> real" where
  "targetSpan distanceRad interactive =
     max (distanceRad * paddingFactor interactive) minSpanRad"

definition autoZoom :: "real \<Rightarrow> bool \<Rightarrow> real" where
  "autoZoom distanceRad interactive =
     min (max (pi / targetSpan distanceRad interactive) 1) 4000"

text \<open>
  \<^verbatim>\<open>locCounts\<close> is a plain object used as a dictionary, modelled by the list of its
  own properties in the order they were created. Two rules of the language show through.
  Reading \<^verbatim>\<open>locCounts[name]\<close> also finds what the object inherits from
  \<^verbatim>\<open>Object.prototype\<close>, and every inherited member is truthy: for such a name no
  own property is created, and \<^verbatim>\<open>count++\<close> goes to the inherited member. And
  \<^verbatim>\<open>Object.values\<close> lists the properties whose key is an array index (a decimal
  integer below \<open>2^32 - 1\<close>, written without leading zeros) first, in rising numeric
  order, and the other properties after them in the order of their creation.
\<close>

definition objectPrototypeMembers :: "string list" where
  "objectPrototypeMembers =
     [''constructor'', ''hasOwnProperty'', ''isPrototypeOf'', ''propertyIsEnumerable'',
      ''toLocaleString'', ''toString'', ''valueOf'', ''__proto__'', ''__defineGetter__'',
      ''__defineSetter__'', ''__lookupGetter__'', ''__lookupSetter__'']"

definition inherited :: "string \<Rightarrow> bool" where
  "inherited n = (n \<in> set objectPrototypeMembers)"

definition digitValue :: "char \<Rightarrow> nat" where
  "digitValue c = length (takeWhile (\<lambda>d. d \<noteq> c) ''0123456789'')"

definition indexValue :: "string \<Rightarrow> nat" where
  "indexValue k = foldl (\<lambda>n c. 10 * n + digitValue c) 0 k"

definition isArrayIndex :: "string \<Rightarrow> bool" where
  "isArrayIndex k =
     (k \<noteq> [] \<and> list_all (\<lambda>c. c \<in> set ''0123456789'') k \<and>
      (k = ''0'' \<or> hd k \<noteq> CHR ''0'') \<and> indexValue k < 4294967295)"

definition objectValues :: "(string \<times> 'v) list \<Rightarrow> 'v list" where
  "objectValues obj =
     map snd (sort_key (\<lambda>(k, v). indexValue k) (filter (\<lambda>(k, v). isArrayIndex k) obj) @
              filter (\<lambda>(k, v). \<not> isArrayIndex k) obj)"

text \<open>
  \<^verbatim>\<open>if (!locCounts[n]) locCounts[n] = { count: 0, coords: c }; locCounts[n].count++\<close>
\<close>

definition bump :: "string \<Rightarrow> point \<Rightarrow> (string \<times> LocCount) list \<Rightarrow> (string \<times> LocCount) list" where
  "bump n c lc =
     (let lc1 = (if map_of lc n = None \<and> \<not> inherited n
                 then lc @ [(n, \<lparr>count = 0, loc_coords = c\<rparr>)] else lc)
      in map (\<lambda>(k, v). if k = n then (k, v\<lparr>count := count v + 1\<rparr>) else (k, v)) lc1)"

definition tally_trip :: "(string \<times> LocCount) list \<Rightarrow> Trip \<Rightarrow> (string \<times> LocCount) list" where
  "tally_trip lc t =
     bump (name (destination t)) (point_of (destination t))
       (bump (name (origin t)) (point_of (origin t)) lc)"

definition locCounts :: "Trip list \<Rightarrow> (string \<times> LocCount) list" where
  "locCounts ts = foldl tally_trip [] ts"

definition topLoc :: "(string \<times> LocCount) list \<Rightarrow> LocCount" where
  "topLoc lc =
     foldl (\<lambda>best lc. if count lc > count best then lc else best)
       \<lparr>count = -1, loc_coords = (0, 0)\<rparr> (objectValues lc)"

text \<open>The target rotation and zoom that \<^verbatim>\<open>autoCenter\<close> computes.\<close>

definition targetCamera :: "D3Geo \<Rightarrow> WorldMapProps \<Rightarrow> point \<times> real" where
  "targetCamera lib props =
     (case highlightTrip props of
        Some h \<Rightarrow>
          (let p1 = point_of (origin h);
               p2 = point_of (destination h);
               center = geoInterpolate lib p1 p2 0.5;
               distanceRad = geoDistance lib p1 p2
           in ((- fst center, - snd center), autoZoom distanceRad (interactionEnabled props)))
      | None \<Rightarrow>
          if length (trips props) > 0 then
            (let sel = topLoc (locCounts (trips props))
             in if count sel > 0 then ((- fst (loc_coords sel), - snd (loc_coords sel)), 1)
                else ((-105, -35), 1))
          else ((-105, -35), 1))"

definition autoCenter :: "D3Geo \<Rightarrow> WorldMapProps \<Rightarrow> ViewState \<Rightarrow> ViewState \<times> dom_call list" where
  "autoCenter lib props s =
     (let (targetRotation, targetZoom) = targetCamera lib props
      in (s\<lparr>rotation := targetRotation, zoom := targetZoom,
             defaultState := Some (targetZoom, targetRotation)\<rparr>,
          if hasOnZoomChange props then [OnZoomChange False] else []))"

section \<open>Gesture controller\<close>

definition isNavZone :: "Dom \<Rightarrow> real \<Rightarrow> bool" where
  "isNavZone env y = (y < innerHeight env * 0.25 \<or> y > innerHeight env * 0.75)"

text \<open>
  \<^verbatim>\<open>handleTouchGatekeeper\<close>, attached to touch-start and touch-move. Reading
  \<^verbatim>\<open>e.touches[0].clientY\<close> of an event without touches is a \<^verbatim>\<open>TypeError\<close>.
\<close>

definition handleTouchGatekeeper :: "WorldMapProps \<Rightarrow> Dom \<Rightarrow> ViewState \<Rightarrow> Touch list \<Rightarrow> outcome" where
  "handleTouchGatekeeper props env s touches =
     (if \<not> interactionEnabled props then Inr (s, [])
      else case touches of
        [] \<Rightarrow> Inl TypeError
      | t # _ \<Rightarrow>
          (let isZoomedIn = zoom s > 1.1
           in if isZoomedIn \<or> \<not> isNavZone env (touchY t) then Inr (s, [StopPropagation])
              else Inr (s, [])))"

text \<open>\<^verbatim>\<open>try { setPointerCapture } catch {}\<close>: the call is made, what it throws is dropped.\<close>

definition handlePointerDown :: "WorldMapProps \<Rightarrow> Dom \<Rightarrow> ViewState \<Rightarrow> PointerEvent \<Rightarrow> outcome" where
  "handlePointerDown props env s e =
     (if \<not> interactionEnabled props then Inr (s, [])
      else
        let isZoomedIn = zoom s > 1.1
        in if \<not> isZoomedIn \<and> isNavZone env (clientY e) \<and> highlightTrip props = None
           then Inr (s, [])
           else
             let s1 = s\<lparr>evCache := evCache s @ [e]\<rparr>;
                 s2 = (if length (evCache s1) = 1
                       then s1\<lparr>isDragging := True, lastPos := Some (clientX e, clientY e)\<rparr>
                       else s1)
             in case setPointerCapture env (pointerId e) of
                  None \<Rightarrow> Inr (s2, [StopPropagation, SetPointerCapture (pointerId e)])
                | Some err \<Rightarrow> Inr (s2, [StopPropagation, SetPointerCapture (pointerId e)]))"

text \<open>\<^verbatim>\<open>Array.prototype.findIndex\<close>: the first index that satisfies the test, or \<open>-1\<close>.\<close>

fun findIndex :: "('a \<Rightarrow> bool) \<Rightarrow> 'a list \<Rightarrow> int" where
  "findIndex P [] = -1"
| "findIndex P (x # xs) =
     (if P x then 0 else (let i = findIndex P xs in if i = -1 then -1 else i + 1))"

definition hypot :: "real \<Rightarrow> real \<Rightarrow> real" where
  "hypot a b = sqrt (a * a + b * b)"

definition handlePointerMove :: "WorldMapProps \<Rightarrow> Dom \<Rightarrow> ViewState \<Rightarrow> PointerEvent \<Rightarrow> outcome" where
  "handlePointerMove props env s e =
     (if \<not> interactionEnabled props then Inr (s, [])
      else
        let calls = (if find (\<lambda>ev. pointerId ev = pointerId e) (evCache s) \<noteq> None
                     then [StopPropagation] else []);
            index = findIndex (\<lambda>cachedEv. pointerId cachedEv = pointerId e) (evCache s);
            s1 = (if index \<noteq> -1 then s\<lparr>evCache := (evCache s)[nat index := e]\<rparr> else s)
        in if length (evCache s1) = 2 then
             (let curDiff = hypot (clientX (evCache s1 ! 0) - clientX (evCache s1 ! 1))
                                  (clientY (evCache s1 ! 0) - clientY (evCache s1 ! 1));
                  s2 = (if prevDiff s1 > 0 then
                          (if curDiff > prevDiff s1 then s1\<lparr>zoom := min (zoom s1 * 1.05) 4000\<rparr>
                           else if curDiff < prevDiff s1 then s1\<lparr>zoom := max (zoom s1 * 0.95) 1\<rparr>
                           else s1)
                        else s1)
              in Inr (s2\<lparr>prevDiff := curDiff\<rparr>, calls))
           else
             (case lastPos s1 of
                Some lp \<Rightarrow>
                  if isDragging s1 \<and> length (evCache s1) = 1 then
                    (let dx = clientX e - fst lp;
                         dy = clientY e - snd lp;
                         sensitivity = 0.25 / sqrt (zoom s1)
                     in Inr (s1\<lparr>rotation := (fst (rotation s1) + dx * sensitivity,
                                               snd (rotation s1) - dy * sensitivity),
                                  lastPos := Some (clientX e, clientY e)\<rparr>, calls))
                  else Inr (s1, calls)
              | None \<Rightarrow> Inr (s1, calls)))"

text \<open>
  \<^verbatim>\<open>handlePointerUp\<close>, attached to pointer-up and pointer-leave.
  \<^verbatim>\<open>splice(index, 1)\<close> removes the entry at \<open>index\<close>.
\<close>

definition handlePointerUp :: "WorldMapProps \<Rightarrow> Dom \<Rightarrow> ViewState \<Rightarrow> PointerEvent \<Rightarrow> outcome" where
  "handlePointerUp props env s e =
     (if \<not> interactionEnabled props then Inr (s, [])
      else
        let index = findIndex (\<lambda>cachedEv. pointerId cachedEv = pointerId e) (evCache s);
            s1 = (if index \<noteq> -1
                  then s\<lparr>evCache := take (nat index) (evCache s) @ drop (Suc (nat index)) (evCache s)\<rparr>
                  else s);
            s2 = (if length (evCache s1) < 2 then s1\<lparr>prevDiff := -1\<rparr> else s1);
            s3 = (if length (evCache s2) = 0 then s2\<lparr>isDragging := False, lastPos := None\<rparr> else s2)
        in if hasPointerCapture env (pointerId e) then
             (case releasePointerCapture env (pointerId e) of
                None \<Rightarrow> Inr (s3, [ReleasePointerCapture (pointerId e)])
              | Some err \<Rightarrow> Inr (s3, [ReleasePointerCapture (pointerId e)]))
           else Inr (s3, []))"

definition handleWheel :: "WorldMapProps \<Rightarrow> Dom \<Rightarrow> ViewState \<Rightarrow> real \<Rightarrow> outcome" where
  "handleWheel props env s deltaY =
     (if \<not> interactionEnabled props then Inr (s, [])
      else
        let scaleFactor = 1.1
        in if deltaY < 0 then Inr (s\<lparr>zoom := min (zoom s * scaleFactor) 4000\<rparr>, [StopPropagation])
           else Inr (s\<lparr>zoom := max (zoom s / scaleFactor) 1\<rparr>, [StopPropagation]))"

definition zoomIn :: "ViewState \<Rightarrow> ViewState" where
  "zoomIn s = s\<lparr>zoom := min (zoom s * 1.5) 4000\<rparr>"

definition handleDoubleClick :: "WorldMapProps \<Rightarrow> Dom \<Rightarrow> ViewState \<Rightarrow> outcome" where
  "handleDoubleClick props env s =
     (if \<not> interactionEnabled props then Inr (s, [])
      else Inr (zoomIn s, [StopPropagation]))"

text \<open>
  The events the component listens to, and \<^verbatim>\<open>resetView\<close> of its handle, which runs
  \<^verbatim>\<open>autoCenter\<close> (as does the effect that watches the trips, the highlighted trip and
  the view mode). A handler runs on the state of the last render, and an event handler
  that throws leaves the state as it was (the only one that can,
  \<^verbatim>\<open>handleTouchGatekeeper\<close>, writes nothing).
\<close>

datatype ui_event =
  PointerDown PointerEvent
  | PointerMove PointerEvent
  | PointerUp PointerEvent
  | PointerLeave PointerEvent
  | Wheel real
  | DoubleClick
  | TouchStart "Touch list"
  | TouchMove "Touch list"
  | ResetView

fun handle :: "D3Geo \<Rightarrow> WorldMapProps \<Rightarrow> Dom \<Rightarrow> ViewState \<Rightarrow> ui_event \<Rightarrow> outcome" where
  "handle lib props env s (PointerDown e) = handlePointerDown props env s e"
| "handle lib props env s (PointerMove e) = handlePointerMove props env s e"
| "handle lib props env s (PointerUp e) = handlePointerUp props env s e"
| "handle lib props env s (PointerLeave e) = handlePointerUp props env s e"
| "handle lib props env s (Wheel deltaY) = handleWheel props env s deltaY"
| "handle lib props env s DoubleClick = handleDoubleClick props env s"
| "handle lib props env s (TouchStart ts) = handleTouchGatekeeper props env s ts"
| "handle lib props env s (TouchMove ts) = handleTouchGatekeeper props env s ts"
| "handle lib props env s ResetView = Inr (autoCenter lib props s)"

definition step :: "D3Geo \<Rightarrow> WorldMapProps \<Rightarrow> Dom \<Rightarrow> ViewState \<Rightarrow> ui_event \<Rightarrow> ViewState" where
  "step lib props env s ev =
     (case handle lib props env s ev of Inl err \<Rightarrow> s | Inr (s', calls) \<Rightarrow> s')"

definition run :: "D3Geo \<Rightarrow> WorldMapProps \<Rightarrow> Dom \<Rightarrow> ViewState \<Rightarrow> ui_event list \<Rightarrow> ViewState" where
  "run lib props env s evs = foldl (step lib props env) s evs"

section \<open>Scene renderer\<close>

text \<open>
  The projection is the d3 orthographic projection built from the dimensions, the
  rotation and the zoom; calling it, and its \<^verbatim>\<open>invert\<close>, gives a point or
  \<^verbatim>\<open>null\<close>. It belongs to the library, so the renderer is modelled over any such pair.
\<close>

record Projection =
  project :: "point \<Rightarrow> point option"
  invert :: "point \<Rightarrow> point option"

text \<open>The keys \<^verbatim>\<open>'origin'\<close>, \<^verbatim>\<open>'dest'\<close> and \<^verbatim>\<open>`dest-${i}`\<close> of the circles.\<close>

datatype point_key = KeyOrigin | KeyDest | KeyDestAt nat

record Circle =
  cx :: real
  cy :: real
  radius :: real
  fill :: string
  pkey :: point_key

definition dotSize :: "WorldMapProps \<Rightarrow> real \<Rightarrow> real" where
  "dotSize props z =
     (3.5 + ln z * 0.6) *
     (if highlightTrip props \<noteq> None \<and> \<not> interactionEnabled props then 1.5 else 1)"

text \<open>The body of the \<^verbatim>\<open>trips.forEach((t, i) => ...)\<close> of \<^verbatim>\<open>renderPoints\<close>.\<close>

definition destPoint :: "D3Geo \<Rightarrow> Projection \<Rightarrow> point \<Rightarrow> nat \<Rightarrow> Trip \<Rightarrow> Circle list" where
  "destPoint lib proj dims i t =
     (let center = invert proj (fst dims / 2, snd dims / 2);
          dCoords = point_of (destination t);
          d = project proj dCoords
      in case center of
           None \<Rightarrow> []
         | Some c \<Rightarrow>
             (case d of
                None \<Rightarrow> []
              | Some q \<Rightarrow>
                  (let distance = geoDistance lib dCoords c
                   in if distance < pi / 2
                      then [\<lparr>cx = fst q, cy = snd q, radius = 3, fill = ''#60a5fa'',
                             pkey = KeyDestAt i\<rparr>]
                      else [])))"

definition renderPoints :: "D3Geo \<Rightarrow> Projection \<Rightarrow> WorldMapProps \<Rightarrow> point \<Rightarrow> real \<Rightarrow> Circle list" where
  "renderPoints lib proj props dims z =
     (case highlightTrip props of
        Some h \<Rightarrow>
          (case project proj (point_of (origin h)) of
             None \<Rightarrow> []
           | Some q \<Rightarrow> [\<lparr>cx = fst q, cy = snd q, radius = dotSize props z, fill = ''#38bdf8'',
                          pkey = KeyOrigin\<rparr>]) @
          (case project proj (point_of (destination h)) of
             None \<Rightarrow> []
           | Some q \<Rightarrow> [\<lparr>cx = fst q, cy = snd q, radius = dotSize props z, fill = ''#818cf8'',
                          pkey = KeyDest\<rparr>])
      | None \<Rightarrow>
          if viewMode props = routes \<or> viewMode props = visited
          then concat (map (\<lambda>(i, t). destPoint lib proj dims i t) (enumerate 0 (trips props)))
          else [])"

subsection \<open>Word cloud\<close>

datatype WordType = country_word | province_word | city_word

record CloudItem =
  wtype :: WordType
  wcount :: int
  wtext :: string

record CloudLabel =
  label_key :: string
  label_text :: string
  label_left :: real
  label_top :: real
  fontSize :: real
  colorClass :: string

text \<open>
  \<^verbatim>\<open>a || b\<close> on optional strings: \<^verbatim>\<open>undefined\<close> and the empty string are falsy.
\<close>

definition truthy :: "string option \<Rightarrow> bool" where
  "truthy x = (case x of None \<Rightarrow> False | Some t \<Rightarrow> t \<noteq> [])"

definition js_or :: "string option \<Rightarrow> string option \<Rightarrow> string option" where
  "js_or a b = (if truthy a then a else b)"

text \<open>
  \<^verbatim>\<open>if (!counts[key]) counts[key] = {type, count: 0, text}; counts[key].count++\<close>.
  The keys start with \<^verbatim>\<open>c-\<close>, \<^verbatim>\<open>p-\<close> or \<^verbatim>\<open>ct-\<close>: none is inherited and none
  is an array index, so \<^verbatim>\<open>Object.values\<close> lists the entries in the order they were
  first written.
\<close>

definition addWord :: "string \<Rightarrow> WordType \<Rightarrow> string \<Rightarrow> (string \<times> CloudItem) list \<Rightarrow> (string \<times> CloudItem) list" where
  "addWord k ty txt cs =
     (let cs1 = (if map_of cs k = None then cs @ [(k, \<lparr>wtype = ty, wcount = 0, wtext = txt\<rparr>)] else cs)
      in map (\<lambda>(k', v). if k' = k then (k', v\<lparr>wcount := wcount v + 1\<rparr>) else (k', v)) cs1)"

text \<open>The word a trip gives for its city: \<^verbatim>\<open>t.destination.city || t.destination.name\<close>.\<close>

definition cityWord :: "Trip \<Rightarrow> string" where
  "cityWord t = (if truthy (city (destination t)) then the (city (destination t))
                 else name (destination t))"

text \<open>A trip gives a word when it names a country, a state or a city.\<close>

definition givesWord :: "Trip \<Rightarrow> bool" where
  "givesWord t =
     (truthy (js_or (country (destination t)) (country (origin t))) \<or>
      truthy (js_or (state (destination t)) (state (origin t))) \<or>
      cityWord t \<noteq> [])"

text \<open>The body of the \<^verbatim>\<open>trips.forEach\<close> of the word cloud.\<close>

definition countTrip :: "(string \<times> CloudItem) list \<Rightarrow> Trip \<Rightarrow> (string \<times> CloudItem) list" where
  "countTrip cs t =
     (let c = js_or (country (destination t)) (country (origin t));
          cs1 = (if truthy c then addWord (''c-'' @ the c) country_word (the c) cs else cs);
          p = js_or (state (destination t)) (state (origin t));
          cs2 = (if truthy p then addWord (''p-'' @ the p) province_word (the p) cs1 else cs1);
          cty = cityWord t
      in if cty \<noteq> [] then addWord (''ct-'' @ cty) city_word cty cs2 else cs2)"

text \<open>
  \<^verbatim>\<open>items.sort((a, b) => b.count - a.count)\<close> is a stable sort by falling count, as
  is \<open>sort_key\<close> on the negated count.
\<close>

definition cloudItems :: "Trip list \<Rightarrow> CloudItem list" where
  "cloudItems ts =
     (let items = sort_key (\<lambda>it. - wcount it) (map snd (foldl countTrip [] ts))
      in if length items > 50 then take 50 items else items)"

definition seededRandom :: "real \<Rightarrow> real" where
  "seededRandom seed = (let x = sin seed * 10000 in x - of_int \<lfloor>x\<rfloor>)"

definition typeName :: "WordType \<Rightarrow> string" where
  "typeName ty = (case ty of country_word \<Rightarrow> ''country'' | province_word \<Rightarrow> ''province''
                   | city_word \<Rightarrow> ''city'')"

definition colorOf :: "WordType \<Rightarrow> string" where
  "colorOf ty =
     (case ty of
        country_word \<Rightarrow> ''text-sky-900/20 dark:text-sky-100/10''
      | province_word \<Rightarrow> ''text-violet-900/20 dark:text-violet-100/10''
      | city_word \<Rightarrow> ''text-teal-900/20 dark:text-teal-100/10'')"

text \<open>
  \<^verbatim>\<open>minCount = items[items.length - 1]?.count || 1\<close> and
  \<^verbatim>\<open>range = (items[0]?.count || 1) - minCount || 1\<close>: a zero falls back to one. The
  percentages and the font size stay numbers; the model does not print them.
\<close>

definition orOne :: "int \<Rightarrow> int" where
  "orOne n = (if n = 0 then 1 else n)"

definition cloudLabel :: "int \<Rightarrow> int \<Rightarrow> nat \<Rightarrow> CloudItem \<Rightarrow> CloudLabel" where
  "cloudLabel minCount rng i item =
     (let weight = real_of_int (wcount item - minCount) / real_of_int rng
      in \<lparr>label_key = ''wc-'' @ typeName (wtype item) @ ''-'' @ wtext item,
          label_text = wtext item,
          label_left = 15 + seededRandom (real i * 123) * 70,
          label_top = 20 + seededRandom (real i * 789) * 60,
          fontSize = 0.8 + weight * 3,
          colorClass = colorOf (wtype item)\<rparr>)"

text \<open>The part of \<^verbatim>\<open>wordCloudElements\<close> after its two early returns.\<close>

definition cloudLabels :: "Trip list \<Rightarrow> CloudLabel list" where
  "cloudLabels ts =
     (let items = cloudItems ts;
          minCount = (case items of [] \<Rightarrow> 1 | _ \<Rightarrow> orOne (wcount (last items)));
          rng = orOne ((case items of [] \<Rightarrow> 1 | it # _ \<Rightarrow> orOne (wcount it)) - minCount)
      in map (\<lambda>(i, item). cloudLabel minCount rng i item) (enumerate 0 items))"

definition wordCloudElements :: "WorldMapProps \<Rightarrow> CloudLabel list" where
  "wordCloudElements props =
     (if \<not> enableWordCloud props \<and> \<not> interactionEnabled props then []
      else if highlightTrip props \<noteq> None then []
      else cloudLabels (trips props))"

text \<open>
  What the component returns. While \<^verbatim>\<open>worldData\<close> is null
  (\<^verbatim>\<open>if (!worldData) return ...\<close>) it is the loading placeholder, without any
  word cloud; once the geometry is there, the background layer is drawn when
  \<^verbatim>\<open>wordCloudElements.length > 0\<close>. The argument \<open>geometry\<close> is the view's
  \<^verbatim>\<open>worldData\<close> state.
\<close>

definition rendersWordCloud :: "WorldMapProps \<Rightarrow> 'g option \<Rightarrow> bool" where
  "rendersWordCloud props geometry =
     (case geometry of
        None \<Rightarrow> False
      | Some g \<Rightarrow> length (wordCloudElements props) > 0)"

section \<open>Geometry cache\<close>

text \<open>
  The module-level variables \<^verbatim>\<open>cachedWorldData\<close> and \<^verbatim>\<open>dataFetchPromise\<close>, shared
  by every mounted globe, with the promises the loader creates. Each call of
  \<^verbatim>\<open>fetch\<close> creates one promise, so \<open>fetches\<close> counts both and the promises are
  numbered \<open>0, ..., fetches - 1\<close>; \<open>promises\<close> says whether a promise is still pending
  or what it was fulfilled with (the \<^verbatim>\<open>catch\<close> handler turns a failure into a promise
  fulfilled with \<^verbatim>\<open>undefined\<close>). \<open>subscribers\<close> are the \<^verbatim>\<open>then\<close> callbacks not
  yet run, as (view, promise), and \<open>worldData\<close> is the React state of each view.
\<close>

datatype 'g promise = Pending | Fulfilled "'g option"

record 'g Loader =
  cachedWorldData :: "'g option"
  dataFetchPromise :: "nat option"
  promises :: "nat \<Rightarrow> 'g promise"
  fetches :: nat
  subscribers :: "(nat \<times> nat) list"
  worldData :: "nat \<Rightarrow> 'g option"

definition emptyLoader :: "'g Loader" where
  "emptyLoader =
     \<lparr>cachedWorldData = None, dataFetchPromise = None, promises = (\<lambda>p. Pending), fetches = 0,
      subscribers = [], worldData = (\<lambda>v. None)\<rparr>"

text \<open>\<^verbatim>\<open>data => { if (data) setWorldData(data) }\<close> in view \<open>v\<close>.\<close>

definition deliver :: "nat \<Rightarrow> 'g option \<Rightarrow> (nat \<Rightarrow> 'g option) \<Rightarrow> (nat \<Rightarrow> 'g option)" where
  "deliver v dat w = (case dat of None \<Rightarrow> w | Some g \<Rightarrow> w(v := Some g))"

text \<open>
  A view keeps the cache's value of the moment it is created
  (\<^verbatim>\<open>useState(cachedWorldData)\<close>); then its load effect runs.
\<close>

definition mount :: "nat \<Rightarrow> 'g Loader \<Rightarrow> 'g Loader" where
  "mount v l =
     (let l0 = l\<lparr>worldData := (worldData l)(v := cachedWorldData l)\<rparr>
      in case cachedWorldData l0 of
           Some g \<Rightarrow> l0\<lparr>worldData := (worldData l0)(v := Some g)\<rparr>
         | None \<Rightarrow>
             (let l1 = (case dataFetchPromise l0 of
                          None \<Rightarrow> l0\<lparr>dataFetchPromise := Some (fetches l0),
                                      promises := (promises l0)(fetches l0 := Pending),
                                      fetches := Suc (fetches l0)\<rparr>
                        | Some p \<Rightarrow> l0)
              in case dataFetchPromise l1 of
                   None \<Rightarrow> l1
                 | Some p \<Rightarrow>
                     (case promises l1 p of
                        Pending \<Rightarrow> l1\<lparr>subscribers := subscribers l1 @ [(v, p)]\<rparr>
                      | Fulfilled dat \<Rightarrow> l1\<lparr>worldData := deliver v dat (worldData l1)\<rparr>)))"

text \<open>The callbacks of promise \<open>p\<close> run with the value it was fulfilled with.\<close>

definition settle :: "nat \<Rightarrow> 'g option \<Rightarrow> 'g Loader \<Rightarrow> 'g Loader" where
  "settle p dat l =
     l\<lparr>promises := (promises l)(p := Fulfilled dat),
       worldData := foldl (\<lambda>w (v, q). if q = p then deliver v dat w else w)
                      (worldData l) (subscribers l),
       subscribers := filter (\<lambda>(v, q). q \<noteq> p) (subscribers l)\<rparr>"

text \<open>
  The fetch behind promise \<open>p\<close> succeeds with the parsed land \<open>g\<close>, or fails (the network,
  the JSON or the conversion throws). A promise settles once.
\<close>

definition fetchSucceeds :: "nat \<Rightarrow> 'g \<Rightarrow> 'g Loader \<Rightarrow> 'g Loader" where
  "fetchSucceeds p g l =
     (if p < fetches l \<and> promises l p = Pending
      then settle p (Some g) (l\<lparr>cachedWorldData := Some g\<rparr>)
      else l)"

definition fetchFails :: "nat \<Rightarrow> 'g Loader \<Rightarrow> 'g Loader" where
  "fetchFails p l =
     (if p < fetches l \<and> promises l p = Pending
      then settle p None (l\<lparr>dataFetchPromise := None\<rparr>)
      else l)"

datatype 'g loader_event = Mount nat | FetchSucceeds nat 'g | FetchFails nat

fun loaderStep :: "'g Loader \<Rightarrow> 'g loader_event \<Rightarrow> 'g Loader" where
  "loaderStep l (Mount v) = mount v l"
| "loaderStep l (FetchSucceeds p g) = fetchSucceeds p g l"
| "loaderStep l (FetchFails p) = fetchFails p l"

definition loaderRun :: "'g loader_event list \<Rightarrow> 'g Loader" where
  "loaderRun evs = foldl loaderStep emptyLoader evs"

text \<open>The fetches in flight: the promises created and still pending.\<close>

definition inFlight :: "'g Loader \<Rightarrow> nat list" where
  "inFlight l = filter (\<lambda>p. promises l p = Pending) [0..<fetches l]"

text \<open>
  What the loader keeps true: a promise still pending is the one the marker holds, and
  then nothing is cached; the marker holds a promise that was created, which is pending
  as long as nothing is cached.
\<close>

definition loaderInv :: "'g Loader \<Rightarrow> bool" where
  "loaderInv l =
     ((\<forall>p \<in> set [0..<fetches l]. promises l p = Pending \<longrightarrow>
          dataFetchPromise l = Some p \<and> cachedWorldData l = None) \<and>
      (case dataFetchPromise l of
         None \<Rightarrow> True
       | Some p \<Rightarrow> p < fetches l \<and> (cachedWorldData l = None \<longrightarrow> promises l p = Pending)))"

section \<open>Properties of the states\<close>

definition zoomClamped :: "ViewState \<Rightarrow> bool" where
  "zoomClamped s = (1 \<le> zoom s \<and> zoom s \<le> 4000)"

text \<open>The decision of a handler on an event: did it stop the propagation?\<close>

definition captured :: "outcome \<Rightarrow> bool" where
  "captured out = (case out of Inl err \<Rightarrow> False | Inr (s, calls) \<Rightarrow> StopPropagation \<in> set calls)"

text \<open>
  The states a view can be in: it starts in \<open>initialState\<close> and every event moves it on,
  under whatever properties and browser answers hold at that moment.
\<close>

inductive reachable :: "ViewState \<Rightarrow> bool" where
  start: "reachable initialState"
| after: "reachable s \<Longrightarrow> reachable (step lib props env s ev)"

text \<open>
  What the handlers keep true of the gesture session: without an active pointer there is
  no drag and no last position, and the pinch baseline is set with two pointers only.
\<close>

definition sessionInv :: "ViewState \<Rightarrow> bool" where
  "sessionInv s =
     ((evCache s = [] \<longrightarrow> \<not> isDragging s \<and> lastPos s = None) \<and>
      (length (evCache s) < 2 \<longrightarrow> prevDiff s = -1))"

section \<open>The specification's wording of the auto-framing\<close>

definition clamp :: "real \<Rightarrow> real \<Rightarrow> real \<Rightarrow> real" where
  "clamp lo hi x = (if x < lo then lo else if hi < x then hi else x)"

definition specZoom :: "real \<Rightarrow> bool \<Rightarrow> real" where
  "specZoom distance interactive =
     clamp 1 4000 (pi / max (distance * (if interactive then 1.5 else 1.8)) 0.001)"

text \<open>
  The locations of the trips in the order they are met: origin, then destination, trip
  after trip. The tally of a name is the number of its occurrences there, its coordinates
  are those of its first occurrence, and the most visited location is the first name met
  whose tally is the highest.
\<close>

definition visits :: "Trip list \<Rightarrow> (string \<times> point) list" where
  "visits ts =
     concat (map (\<lambda>t. [(name (origin t), point_of (origin t)),
                       (name (destination t), point_of (destination t))]) ts)"

definition tally :: "Trip list \<Rightarrow> string \<Rightarrow> nat" where
  "tally ts n = count_list (map fst (visits ts)) n"

text \<open>
  A name is ordinary when it is neither an array index nor the name of a member of
  \<^verbatim>\<open>Object.prototype\<close>.
\<close>

definition ordinary :: "string \<Rightarrow> bool" where
  "ordinary n = (\<not> isArrayIndex n \<and> \<not> inherited n)"

definition ordinaryNames :: "Trip list \<Rightarrow> bool" where
  "ordinaryNames ts = list_all (\<lambda>t. ordinary (name (origin t)) \<and> ordinary (name (destination t))) ts"

definition mostVisited :: "Trip list \<Rightarrow> string option" where
  "mostVisited ts =
     (let ns = map fst (visits ts)
      in find (\<lambda>n. tally ts n = Max (set (map (tally ts) ns))) ns)"

section \<open>A reference sphere and sample data\<close>

text \<open>
  A great-circle implementation of the two library functions over the reals, after the
  formulas of d3-geo (\<^verbatim>\<open>distance.js\<close>, \<^verbatim>\<open>interpolate.js\<close>); between antipodal
  points, where every great circle is a shortest path, the interpolation stays at the
  first point. It serves as the library of the concrete examples.
\<close>

definition radians :: real where
  "radians = pi / 180"

definition degrees :: real where
  "degrees = 180 / pi"

definition atan2 :: "real \<Rightarrow> real \<Rightarrow> real" where
  "atan2 y x =
     (if x > 0 then arctan (y / x)
      else if x < 0 then (if y \<ge> 0 then arctan (y / x) + pi else arctan (y / x) - pi)
      else if y > 0 then pi / 2 else if y < 0 then - pi / 2 else 0)"

definition haversin :: "real \<Rightarrow> real" where
  "haversin x = (sin (x / 2)) ^ 2"

definition asin_clamped :: "real \<Rightarrow> real" where
  "asin_clamped x = (if x > 1 then pi / 2 else if x < -1 then - pi / 2 else arcsin x)"

definition sphereDistance :: "point \<Rightarrow> point \<Rightarrow> real" where
  "sphereDistance a b =
     (let lambda0 = fst a * radians; phi0 = snd a * radians;
          lambda1 = fst b * radians; phi1 = snd b * radians;
          delta = \<bar>lambda1 - lambda0\<bar>;
          x = cos phi1 * sin delta;
          y = cos phi0 * sin phi1 - sin phi0 * cos phi1 * cos delta;
          z = sin phi0 * sin phi1 + cos phi0 * cos phi1 * cos delta
      in atan2 (sqrt (x * x + y * y)) z)"

definition sphereInterpolate :: "point \<Rightarrow> point \<Rightarrow> real \<Rightarrow> point" where
  "sphereInterpolate a b t =
     (let x0 = fst a * radians; y0 = snd a * radians;
          x1 = fst b * radians; y1 = snd b * radians;
          kx0 = cos y0 * cos x0; ky0 = cos y0 * sin x0;
          kx1 = cos y1 * cos x1; ky1 = cos y1 * sin x1;
          d = 2 * asin_clamped (sqrt (haversin (y1 - y0) + cos y0 * cos y1 * haversin (x1 - x0)));
          k = sin d
      in if d = 0 \<or> k = 0 then (x0 * degrees, y0 * degrees)
         else
           (let B = sin (t * d) / k; A = sin (d - t * d) / k;
                x = A * kx0 + B * kx1; y = A * ky0 + B * ky1; z = A * sin y0 + B * sin y1
            in (atan2 y x * degrees, atan2 z (sqrt (x * x + y * y)) * degrees)))"

definition sphere :: D3Geo where
  "sphere = \<lparr>geoDistance = sphereDistance, geoInterpolate = sphereInterpolate\<rparr>"

definition place :: "string \<Rightarrow> real \<Rightarrow> real \<Rightarrow> LocationData" where
  "place n la lo =
     \<lparr>name = n, coords = \<lparr>lat = la, lng = lo\<rparr>, country = None, state = None, city = None\<rparr>"

definition journey :: "string \<Rightarrow> LocationData \<Rightarrow> LocationData \<Rightarrow> Trip" where
  "journey i a b = \<lparr>trip_id = i, origin = a, destination = b\<rparr>"

definition globeView :: "Trip list \<Rightarrow> Trip option \<Rightarrow> bool \<Rightarrow> WorldMapProps" where
  "globeView ts h interactive =
     \<lparr>trips = ts, highlightTrip = h, viewMode = routes, interactionEnabled = interactive,
      hasOnZoomChange = False, enableWordCloud = False\<rparr>"

definition browser :: Dom where
  "browser =
     \<lparr>innerHeight = 800, hasPointerCapture = (\<lambda>i. False), setPointerCapture = (\<lambda>i. None),
      releasePointerCapture = (\<lambda>i. Some DOMException)\<rparr>"

definition pointerAt :: "int \<Rightarrow> real \<Rightarrow> real \<Rightarrow> PointerEvent" where
  "pointerAt i x y = \<lparr>pointerId = i, clientX = x, clientY = y\<rparr>"

text \<open>
  A stand-in for the projection in the examples: it gives every point a position and
  looks at \<open>(0, 0)\<close> from the middle of an 800 by 400 viewport.
\<close>

definition flatProjection :: Projection where
  "flatProjection =
     \<lparr>project = (\<lambda>p. Some (400 + fst p, 200 - snd p)),
      invert = (\<lambda>q. Some (fst q - 400, 200 - snd q))\<rparr>"

section \<open>Auxiliary notions of the proofs\<close>

text \<open>
  The names of a list in the order of their first occurrence, and the entry that
  \<^verbatim>\<open>locCounts\<close> holds for a name after the visits \<open>vs\<close>.
\<close>

definition firstSeen :: "'a list \<Rightarrow> 'a list" where
  "firstSeen xs = rev (remdups (rev xs))"

definition locEntry :: "(string \<times> point) list \<Rightarrow> string \<Rightarrow> string \<times> LocCount" where
  "locEntry vs n =
     (n, \<lparr>count = int (count_list (map fst vs) n), loc_coords = the (map_of vs n)\<rparr>)"

definition bumps :: "(string \<times> LocCount) list \<Rightarrow> (string \<times> point) list \<Rightarrow> (string \<times> LocCount) list" where
  "bumps lc vs = foldl (\<lambda>acc (n, c). bump n c acc) lc vs"

section \<open>Auto-framing of a highlighted trip\<close>

lemma targetSpan_lower: "minSpanRad \<le> targetSpan d i"
  by (simp add: targetSpan_def)

lemma targetSpan_positive: "0 < targetSpan d i"
  using targetSpan_lower[of d i] by (simp add: minSpanRad_def)

lemma autoZoom_lower: "1 \<le> autoZoom d i"
  by (simp add: autoZoom_def)

lemma autoZoom_upper: "autoZoom d i \<le> 4000"
  by (simp add: autoZoom_def)

lemma autoZoom_coincident: "autoZoom 0 i = 1000 * pi"
proof -
  have "pi \<le> 4" using pi_less_4 by simp
  moreover have "1 \<le> 1000 * pi" using pi_ge_two by simp
  ultimately show ?thesis
    by (simp add: autoZoom_def targetSpan_def minSpanRad_def paddingFactor_def)
qed

lemma autoZoom_antipodal: "autoZoom pi i = 1"
proof -
  have "pi / targetSpan pi i \<le> 1"
    using pi_gt_zero by (simp add: targetSpan_def minSpanRad_def paddingFactor_def max_def)
  then show ?thesis by (simp add: autoZoom_def)
qed

lemma autoZoom_specZoom: "autoZoom d i = specZoom d i"
  by (simp add: autoZoom_def specZoom_def clamp_def targetSpan_def paddingFactor_def
      minSpanRad_def min_def max_def)

lemma targetCamera_highlight:
  assumes "highlightTrip props = Some h"
  shows "targetCamera lib props =
           ((- fst (geoInterpolate lib (point_of (origin h)) (point_of (destination h)) (1 / 2)),
             - snd (geoInterpolate lib (point_of (origin h)) (point_of (destination h)) (1 / 2))),
            autoZoom (geoDistance lib (point_of (origin h)) (point_of (destination h)))
              (interactionEnabled props))"
  using assms by (simp add: targetCamera_def Let_def)

lemma autoCenter_camera:
  "rotation (fst (autoCenter lib props s)) = fst (targetCamera lib props) \<and>
   zoom (fst (autoCenter lib props s)) = snd (targetCamera lib props)"
  by (cases "targetCamera lib props") (simp add: autoCenter_def)

text \<open>
  C5. Whatever the great-circle distance between origin and destination, the divisor of
  the auto-framing zoom is at least 0.001, hence not zero, and the zoom lies in
  [1, 4000]: for coincident points (distance 0) it is 1000 * pi, for antipodal points
  (distance pi) it is 1. This holds for the camera of every highlighted trip.
\<close>

theorem autoZoom_never_divides_by_zero:
  "minSpanRad \<le> targetSpan d i \<and> targetSpan d i \<noteq> 0 \<and>
   1 \<le> autoZoom d i \<and> autoZoom d i \<le> 4000 \<and>
   autoZoom 0 i = 1000 * pi \<and> autoZoom pi i = 1 \<and>
   1 \<le> snd (targetCamera lib (props\<lparr>highlightTrip := Some h\<rparr>)) \<and>
   snd (targetCamera lib (props\<lparr>highlightTrip := Some h\<rparr>)) \<le> 4000"
proof -
  have "targetSpan d i \<noteq> 0" using targetSpan_positive[of d i] by simp
  moreover have "snd (targetCamera lib (props\<lparr>highlightTrip := Some h\<rparr>)) =
      autoZoom (geoDistance lib (point_of (origin h)) (point_of (destination h)))
        (interactionEnabled props)"
    by (simp add: targetCamera_highlight[of _ h])
  ultimately show ?thesis
    by (simp add: targetSpan_lower autoZoom_lower autoZoom_upper autoZoom_coincident
        autoZoom_antipodal)
qed

lemma sphereDistance_quarter: "sphereDistance (0, 0) (90, 0) = pi / 2"
  by (simp add: sphereDistance_def radians_def atan2_def)

lemma arcsin_sqrt_half: "arcsin (sqrt 2 / 2) = pi / 4"
proof -
  have "arcsin (sin (pi / 4)) = pi / 4"
    by (rule arcsin_sin) (use pi_gt_zero in auto)
  then show ?thesis by (simp add: sin_45)
qed

lemma sqrt_half: "sqrt (1 / 2) = sqrt 2 / 2"
  by (simp add: real_sqrt_divide real_div_sqrt)

lemma sphereInterpolate_mid: "sphereInterpolate (0, 0) (90, 0) (1 / 2) = (45, 0)"
proof -
  have h0: "haversin 0 = 0" by (simp add: haversin_def)
  have h: "haversin (pi / 2) = 1 / 2"
    by (simp add: haversin_def sin_45 power2_eq_square)
  have up: "sqrt 2 / 2 \<le> 1" by (simp add: real_le_lsqrt)
  have low: "- 1 \<le> sqrt 2 / 2"
    by (rule order_trans[of _ 0]) simp_all
  have d: "asin_clamped (sqrt (haversin 0 + haversin (pi / 2))) = pi / 4"
    using up low by (simp add: h0 h sqrt_half asin_clamped_def arcsin_sqrt_half)
  show ?thesis
    by (simp add: sphereInterpolate_def Let_def radians_def degrees_def d atan2_def
        sin_45 cos_45 arctan_one)
qed

lemma specZoom_quarter: "specZoom (pi / 2) True = 4 / 3"
proof -
  have "pi * 3 / 4 \<ge> 1 / 1000" using pi_ge_two by simp
  then have "max (pi / 2 * (3 / 2)) (1 / 1000) = pi * 3 / 4" by simp
  then show ?thesis by (simp add: specZoom_def clamp_def)
qed

lemma sphereDistance_north: "sphereDistance (0, 0) (0, 90) = pi / 2"
  by (simp add: sphereDistance_def radians_def atan2_def)

lemma sphereInterpolate_north: "sphereInterpolate (0, 0) (0, 90) (1 / 2) = (0, 45)"
proof -
  have h0: "haversin 0 = 0" by (simp add: haversin_def)
  have h: "haversin (pi / 2) = 1 / 2"
    by (simp add: haversin_def sin_45 power2_eq_square)
  have up: "sqrt 2 / 2 \<le> 1" by (simp add: real_le_lsqrt)
  have low: "- 1 \<le> sqrt 2 / 2"
    by (rule order_trans[of _ 0]) simp_all
  have d: "asin_clamped (sqrt (haversin (pi / 2))) = pi / 4"
    using up low by (simp add: h sqrt_half asin_clamped_def arcsin_sqrt_half)
  show ?thesis
    by (simp add: sphereInterpolate_def Let_def radians_def degrees_def d h0 atan2_def
        sin_45 cos_45 sqrt_half arctan_one)
qed

text \<open>
  C2. With a highlighted trip, autoCenter turns the globe to the great-circle midpoint of
  origin and destination (the rotation is the negated midpoint, which is how d3 centres a
  point) and sets the zoom to pi / max(distance * padding, 0.001) clamped to [1, 4000],
  with padding 1.5 when the view is interactive and 1.8 when it is not. For an interactive
  view and a trip over a quarter of a great circle (distance pi / 2), such as the one from
  (0, 0) to (0, 90) with midpoint (0, 45), the globe is centred on the midpoint and the
  zoom is 4/3, above 1.
\<close>

theorem autoCenter_frames_highlight:
  assumes "highlightTrip props = Some h"
  shows "rotation (fst (autoCenter lib props s)) =
           (- fst (geoInterpolate lib (point_of (origin h)) (point_of (destination h)) (1 / 2)),
            - snd (geoInterpolate lib (point_of (origin h)) (point_of (destination h)) (1 / 2))) \<and>
         zoom (fst (autoCenter lib props s)) =
           specZoom (geoDistance lib (point_of (origin h)) (point_of (destination h)))
             (interactionEnabled props) \<and>
         (interactionEnabled props \<and>
          geoInterpolate lib (point_of (origin h)) (point_of (destination h)) (1 / 2) = m \<and>
          geoDistance lib (point_of (origin h)) (point_of (destination h)) = pi / 2 \<longrightarrow>
          rotation (fst (autoCenter lib props s)) = (- fst m, - snd m) \<and>
          zoom (fst (autoCenter lib props s)) = 4 / 3 \<and>
          1 < zoom (fst (autoCenter lib props s)))"
proof -
  have cam: "rotation (fst (autoCenter lib props s)) =
           (- fst (geoInterpolate lib (point_of (origin h)) (point_of (destination h)) (1 / 2)),
            - snd (geoInterpolate lib (point_of (origin h)) (point_of (destination h)) (1 / 2)))"
    "zoom (fst (autoCenter lib props s)) =
           specZoom (geoDistance lib (point_of (origin h)) (point_of (destination h)))
             (interactionEnabled props)"
    using autoCenter_camera[of lib props s] targetCamera_highlight[OF assms, of lib]
    by (simp_all add: autoZoom_specZoom)
  have example: "rotation (fst (autoCenter lib props s)) = (- fst m, - snd m) \<and>
      zoom (fst (autoCenter lib props s)) = 4 / 3 \<and>
      1 < zoom (fst (autoCenter lib props s))"
    if "interactionEnabled props"
      "geoInterpolate lib (point_of (origin h)) (point_of (destination h)) (1 / 2) = m"
      "geoDistance lib (point_of (origin h)) (point_of (destination h)) = pi / 2"
  proof -
    from that(1) have "interactionEnabled props = True" by simp
    then show ?thesis
      unfolding cam that(2,3) by (simp add: specZoom_quarter)
  qed
  from cam example show ?thesis by blast
qed

text \<open>
  The example on the reference sphere, read as (lat, lng) and as (lng, lat): from
  (lat 0, lng 0) to (lat 0, lng 90) the rotation is (-45, 0), from (lat 0, lng 0) to
  (lat 90, lng 0) it is (0, -45); the zoom is 4/3 in both.
\<close>

theorem autoCenter_frames_highlight_witness:
  "highlightTrip (globeView [] (Some (journey ''t1'' (place ''O'' 0 0) (place ''D'' 0 90))) True) =
     Some (journey ''t1'' (place ''O'' 0 0) (place ''D'' 0 90)) \<and>
   rotation (fst (autoCenter sphere
     (globeView [] (Some (journey ''t1'' (place ''O'' 0 0) (place ''D'' 0 90))) True)
     initialState)) = (-45, 0) \<and>
   zoom (fst (autoCenter sphere
     (globeView [] (Some (journey ''t1'' (place ''O'' 0 0) (place ''D'' 0 90))) True)
     initialState)) = 4 / 3 \<and>
   rotation (fst (autoCenter sphere
     (globeView [] (Some (journey ''t2'' (place ''O'' 0 0) (place ''N'' 90 0))) True)
     initialState)) = (0, -45) \<and>
   zoom (fst (autoCenter sphere
     (globeView [] (Some (journey ''t2'' (place ''O'' 0 0) (place ''N'' 90 0))) True)
     initialState)) = 4 / 3"
  using autoCenter_frames_highlight[of
      "globeView [] (Some (journey ''t1'' (place ''O'' 0 0) (place ''D'' 0 90))) True"
      "journey ''t1'' (place ''O'' 0 0) (place ''D'' 0 90)" sphere initialState "(45, 0)"]
    autoCenter_frames_highlight[of
      "globeView [] (Some (journey ''t2'' (place ''O'' 0 0) (place ''N'' 90 0))) True"
      "journey ''t2'' (place ''O'' 0 0) (place ''N'' 90 0)" sphere initialState "(0, 45)"]
  by (simp add: globeView_def journey_def place_def point_of_def sphere_def
      sphereInterpolate_mid sphereDistance_quarter sphereInterpolate_north
      sphereDistance_north)

section \<open>The zoom stays clamped\<close>

lemma autoCenter_clamped: "zoomClamped (fst (autoCenter lib props s))"
proof (cases "targetCamera lib props")
  case (Pair r z)
  have "1 \<le> snd (targetCamera lib props) \<and> snd (targetCamera lib props) \<le> 4000"
    by (simp add: targetCamera_def Let_def autoZoom_lower autoZoom_upper split: option.split)
  with Pair show ?thesis
    by (simp add: autoCenter_def zoomClamped_def)
qed

lemma handlePointerDown_zoom:
  "handlePointerDown props env s e = Inr (s', c) \<Longrightarrow> zoom s' = zoom s"
  by (auto simp: handlePointerDown_def Let_def split: if_splits option.splits)

lemma handlePointerUp_zoom:
  "handlePointerUp props env s e = Inr (s', c) \<Longrightarrow> zoom s' = zoom s"
  by (auto simp: handlePointerUp_def Let_def split: if_splits option.splits)

lemma handleTouchGatekeeper_state:
  "handleTouchGatekeeper props env s ts = Inr (s', c) \<Longrightarrow> s' = s"
  by (auto simp: handleTouchGatekeeper_def Let_def split: if_splits list.splits)

lemma handleWheel_clamped:
  "zoomClamped s \<Longrightarrow> handleWheel props env s d = Inr (s', c) \<Longrightarrow> zoomClamped s'"
  by (auto simp: handleWheel_def Let_def zoomClamped_def split: if_splits)

lemma handleDoubleClick_clamped:
  "zoomClamped s \<Longrightarrow> handleDoubleClick props env s = Inr (s', c) \<Longrightarrow> zoomClamped s'"
  by (auto simp: handleDoubleClick_def zoomIn_def zoomClamped_def split: if_splits)

lemma handlePointerMove_clamped:
  "zoomClamped s \<Longrightarrow> handlePointerMove props env s e = Inr (s', c) \<Longrightarrow> zoomClamped s'"
  by (auto simp: handlePointerMove_def Let_def zoomClamped_def split: if_splits option.splits)

lemma handle_clamped:
  assumes "zoomClamped s" and "handle lib props env s ev = Inr (s', c)"
  shows "zoomClamped s'"
proof (cases ev)
  case (PointerDown e)
  with assms show ?thesis using handlePointerDown_zoom[of props env s e s' c]
    by (simp add: zoomClamped_def)
next
  case (PointerMove e)
  with assms show ?thesis using handlePointerMove_clamped[of s props env e s' c] by simp
next
  case (PointerUp e)
  with assms show ?thesis using handlePointerUp_zoom[of props env s e s' c]
    by (simp add: zoomClamped_def)
next
  case (PointerLeave e)
  with assms show ?thesis using handlePointerUp_zoom[of props env s e s' c]
    by (simp add: zoomClamped_def)
next
  case (Wheel d)
  with assms show ?thesis using handleWheel_clamped[of s props env d s' c] by simp
next
  case DoubleClick
  with assms show ?thesis using handleDoubleClick_clamped[of s props env s' c] by simp
next
  case (TouchStart ts)
  with assms show ?thesis using handleTouchGatekeeper_state[of props env s ts s' c] by simp
next
  case (TouchMove ts)
  with assms show ?thesis using handleTouchGatekeeper_state[of props env s ts s' c] by simp
next
  case ResetView
  with assms show ?thesis using autoCenter_clamped[of lib props s] by auto
qed

lemma step_clamped: "zoomClamped s \<Longrightarrow> zoomClamped (step lib props env s ev)"
  by (auto simp: step_def split: sum.splits dest: handle_clamped)

lemma run_clamped: "zoomClamped s \<Longrightarrow> zoomClamped (run lib props env s evs)"
  unfolding run_def by (induction evs arbitrary: s) (simp_all add: step_clamped)

text \<open>
  C3. From a zoom in [1, 4000], one event of any kind (a pinch step, a wheel step, a
  double click, and every other event the view handles) leaves the zoom in [1, 4000], and
  so does every finite sequence of events; in particular every sequence that starts from
  the state autoCenter has framed.
\<close>

theorem zoom_stays_clamped:
  assumes "zoomClamped s"
  shows "zoomClamped (step lib props env s ev) \<and>
         zoomClamped (run lib props env s evs) \<and>
         zoomClamped (run lib props env (fst (autoCenter lib props s0)) evs)"
  using assms by (simp add: step_clamped run_clamped autoCenter_clamped)

theorem zoom_stays_clamped_witness:
  "zoomClamped (initialState\<lparr>zoom := 3900\<rparr>) \<and>
   zoom (step sphere (globeView [] None True) browser (initialState\<lparr>zoom := 3900\<rparr>) DoubleClick)
     = 4000 \<and>
   zoomClamped (step sphere (globeView [] None True) browser (initialState\<lparr>zoom := 3900\<rparr>)
     DoubleClick) \<and>
   zoom (run sphere (globeView [] None True) browser (initialState\<lparr>zoom := 3900\<rparr>)
     [Wheel 1, Wheel (-1), Wheel (-1)]) = 4000 \<and>
   zoomClamped (run sphere (globeView [] None True) browser (initialState\<lparr>zoom := 3900\<rparr>)
     [Wheel 1, Wheel (-1), Wheel (-1)])"
  using zoom_stays_clamped[of "initialState\<lparr>zoom := 3900\<rparr>" sphere "globeView [] None True"
      browser DoubleClick "[Wheel 1, Wheel (-1), Wheel (-1)]" initialState]
  by (simp add: zoomClamped_def initialState_def step_def run_def globeView_def
      handleDoubleClick_def handleWheel_def zoomIn_def)

section \<open>Zoning: touch gatekeeper and pointer-down\<close>

lemma captured_touch:
  "captured (handleTouchGatekeeper props env s (t # ts)) =
     (interactionEnabled props \<and> (zoom s > 1.1 \<or> \<not> isNavZone env (touchY t)))"
  by (simp add: captured_def handleTouchGatekeeper_def Let_def)

lemma captured_pointerDown:
  "captured (handlePointerDown props env s e) =
     (interactionEnabled props \<and>
      (zoom s > 1.1 \<or> \<not> isNavZone env (clientY e) \<or> highlightTrip props \<noteq> None))"
  by (auto simp: captured_def handlePointerDown_def Let_def split: option.splits)

lemma zoning_agrees_without_highlight:
  assumes "highlightTrip props = None" and "touchY t = clientY e"
  shows "captured (handleTouchGatekeeper props env s (t # ts)) =
         captured (handlePointerDown props env s e)"
  using assms by (simp add: captured_touch captured_pointerDown)

lemma zoning_differs_with_highlight:
  assumes "interactionEnabled props" and "highlightTrip props \<noteq> None"
    and "zoom s \<le> 1.1" and "isNavZone env (clientY e)" and "touchY t = clientY e"
  shows "\<not> captured (handleTouchGatekeeper props env s (t # ts)) \<and>
         captured (handlePointerDown props env s e)"
  using assms by (simp add: captured_touch captured_pointerDown)

text \<open>
  C1. In an interactive view with a highlighted trip, at zoom 1, an event at y = 80 of a
  window 800 high lies in the top band. The touch gatekeeper lets it propagate; the
  pointer-down handler stops it, records the pointer and captures it. The two entry
  points decide differently on the same position and zoom.
\<close>

theorem zoning_touch_and_pointer_disagree:
  "\<not> captured (handleTouchGatekeeper
        (globeView [journey ''t1'' (place ''A'' 10 20) (place ''B'' 30 40)]
           (Some (journey ''t1'' (place ''A'' 10 20) (place ''B'' 30 40))) True)
        browser initialState [\<lparr>touchY = 80\<rparr>]) \<and>
   captured (handlePointerDown
        (globeView [journey ''t1'' (place ''A'' 10 20) (place ''B'' 30 40)]
           (Some (journey ''t1'' (place ''A'' 10 20) (place ''B'' 30 40))) True)
        browser initialState (pointerAt 1 100 80)) \<and>
   handleTouchGatekeeper
        (globeView [journey ''t1'' (place ''A'' 10 20) (place ''B'' 30 40)]
           (Some (journey ''t1'' (place ''A'' 10 20) (place ''B'' 30 40))) True)
        browser initialState [\<lparr>touchY = 80\<rparr>] = Inr (initialState, []) \<and>
   handlePointerDown
        (globeView [journey ''t1'' (place ''A'' 10 20) (place ''B'' 30 40)]
           (Some (journey ''t1'' (place ''A'' 10 20) (place ''B'' 30 40))) True)
        browser initialState (pointerAt 1 100 80) =
     Inr (initialState\<lparr>evCache := [pointerAt 1 100 80], isDragging := True,
                       lastPos := Some (100, 80)\<rparr>,
          [StopPropagation, SetPointerCapture 1])"
  by (simp add: captured_def handleTouchGatekeeper_def handlePointerDown_def Let_def
      globeView_def browser_def initialState_def pointerAt_def isNavZone_def)

section \<open>Pointer-up without a recorded pointer-down\<close>

lemma findIndex_lower: "- 1 \<le> findIndex P xs"
  by (induction xs) (auto simp: Let_def)

lemma findIndex_upper: "findIndex P xs < int (length xs)"
  by (induction xs) (auto simp: Let_def)

lemma findIndex_absent: "(findIndex P xs = - 1) = (\<forall>x \<in> set xs. \<not> P x)"
proof (induction xs)
  case Nil
  show ?case by simp
next
  case (Cons x xs)
  have "findIndex P xs + 1 \<noteq> - 1" using findIndex_lower[of P xs] by simp
  with Cons show ?case by (simp add: Let_def)
qed

lemma sessionInv_initialState: "sessionInv initialState"
  by (simp add: sessionInv_def initialState_def)

lemma handlePointerDown_inv:
  "sessionInv s \<Longrightarrow> handlePointerDown props env s e = Inr (s', c) \<Longrightarrow> sessionInv s'"
  by (auto simp: handlePointerDown_def Let_def sessionInv_def split: if_splits option.splits)

lemma handlePointerUp_inv:
  "sessionInv s \<Longrightarrow> handlePointerUp props env s e = Inr (s', c) \<Longrightarrow> sessionInv s'"
  by (auto simp: handlePointerUp_def Let_def sessionInv_def split: if_splits option.splits)

lemma handlePointerMove_inv:
  "sessionInv s \<Longrightarrow> handlePointerMove props env s e = Inr (s', c) \<Longrightarrow> sessionInv s'"
  by (auto simp: handlePointerMove_def Let_def sessionInv_def split: if_splits option.splits)

lemma handleWheel_inv:
  "sessionInv s \<Longrightarrow> handleWheel props env s d = Inr (s', c) \<Longrightarrow> sessionInv s'"
  by (auto simp: handleWheel_def Let_def sessionInv_def split: if_splits)

lemma handleDoubleClick_inv:
  "sessionInv s \<Longrightarrow> handleDoubleClick props env s = Inr (s', c) \<Longrightarrow> sessionInv s'"
  by (auto simp: handleDoubleClick_def zoomIn_def sessionInv_def split: if_splits)

lemma autoCenter_inv: "sessionInv s \<Longrightarrow> sessionInv (fst (autoCenter lib props s))"
  by (cases "targetCamera lib props") (simp add: autoCenter_def sessionInv_def)

lemma handle_inv:
  assumes "sessionInv s" and "handle lib props env s ev = Inr (s', c)"
  shows "sessionInv s'"
proof (cases ev)
  case (PointerDown e)
  with assms show ?thesis using handlePointerDown_inv[of s props env e s' c] by simp
next
  case (PointerMove e)
  with assms show ?thesis using handlePointerMove_inv[of s props env e s' c] by simp
next
  case (PointerUp e)
  with assms show ?thesis using handlePointerUp_inv[of s props env e s' c] by simp
next
  case (PointerLeave e)
  with assms show ?thesis using handlePointerUp_inv[of s props env e s' c] by simp
next
  case (Wheel d)
  with assms show ?thesis using handleWheel_inv[of s props env d s' c] by simp
next
  case DoubleClick
  with assms show ?thesis using handleDoubleClick_inv[of s props env s' c] by simp
next
  case (TouchStart ts)
  with assms show ?thesis using handleTouchGatekeeper_state[of props env s ts s' c] by simp
next
  case (TouchMove ts)
  with assms show ?thesis using handleTouchGatekeeper_state[of props env s ts s' c] by simp
next
  case ResetView
  with assms show ?thesis using autoCenter_inv[of s lib props] by auto
qed

lemma step_inv: "sessionInv s \<Longrightarrow> sessionInv (step lib props env s ev)"
  by (auto simp: step_def split: sum.splits dest: handle_inv)

lemma reachable_sessionInv: "reachable s \<Longrightarrow> sessionInv s"
  by (induction rule: reachable.induct) (simp_all add: sessionInv_initialState step_inv)

lemma handlePointerUp_returns: "handlePointerUp props env s e \<noteq> Inl err"
  by (simp add: handlePointerUp_def Let_def split: option.split)

lemma handlePointerUp_unmatched:
  assumes "sessionInv s" and "pointerId e \<notin> pointerId ` set (evCache s)"
  shows "handlePointerUp props env s e =
           Inr (s, if interactionEnabled props \<and> hasPointerCapture env (pointerId e)
                   then [ReleasePointerCapture (pointerId e)] else [])"
proof -
  have "findIndex (\<lambda>cachedEv. pointerId cachedEv = pointerId e) (evCache s) = - 1"
    unfolding findIndex_absent using assms(2) by (metis image_eqI)
  moreover have "length (evCache s) < 2 \<Longrightarrow> s\<lparr>prevDiff := - 1\<rparr> = s"
    using assms(1) by (simp add: sessionInv_def)
  moreover have "evCache s = [] \<Longrightarrow> s\<lparr>isDragging := False, lastPos := None\<rparr> = s"
    using assms(1) by (simp add: sessionInv_def)
  ultimately show ?thesis
    by (simp add: handlePointerUp_def Let_def split: option.split)
qed

text \<open>
  C9. In every state the view can reach, a pointer-up (or pointer-leave) for a pointer
  that is not in the active-pointer cache leaves the whole state as it is: camera, cache,
  pinch baseline, drag flag and last position. The handler never throws: when the target
  does not hold the capture of the pointer it makes no call at all, and when it does, an
  exception of releasePointerCapture is swallowed.
\<close>

theorem pointer_up_without_down_is_noop:
  assumes "reachable s" and "pointerId e \<notin> pointerId ` set (evCache s)"
  shows "step lib props env s (PointerUp e) = s \<and>
         step lib props env s (PointerLeave e) = s \<and>
         (\<exists>calls. handlePointerUp props env s e = Inr (s, calls)) \<and>
         (\<not> hasPointerCapture env (pointerId e) \<longrightarrow>
            handlePointerUp props env s e = Inr (s, [])) \<and>
         handlePointerUp props env s' e' \<noteq> Inl err"
  using handlePointerUp_unmatched[OF reachable_sessionInv[OF assms(1)] assms(2), of props env]
  by (simp add: step_def handlePointerUp_returns)

theorem pointer_up_without_down_is_noop_witness:
  "reachable (step sphere (globeView [] None True) browser initialState
      (PointerDown (pointerAt 1 10 400))) \<and>
   evCache (step sphere (globeView [] None True) browser initialState
      (PointerDown (pointerAt 1 10 400))) = [pointerAt 1 10 400] \<and>
   pointerId (pointerAt 2 50 60) \<notin> pointerId ` set (evCache
     (step sphere (globeView [] None True) browser initialState
        (PointerDown (pointerAt 1 10 400)))) \<and>
   handlePointerUp (globeView [] None True) (browser\<lparr>hasPointerCapture := (\<lambda>i. True)\<rparr>)
     (step sphere (globeView [] None True) browser initialState
        (PointerDown (pointerAt 1 10 400))) (pointerAt 2 50 60) =
     Inr (step sphere (globeView [] None True) browser initialState
        (PointerDown (pointerAt 1 10 400)), [ReleasePointerCapture 2]) \<and>
   handlePointerUp (globeView [] None True) browser
     (step sphere (globeView [] None True) browser initialState
        (PointerDown (pointerAt 1 10 400))) (pointerAt 2 50 60) =
     Inr (step sphere (globeView [] None True) browser initialState
        (PointerDown (pointerAt 1 10 400)), [])"
proof -
  let ?s = "step sphere (globeView [] None True) browser initialState
      (PointerDown (pointerAt 1 10 400))"
  have r: "reachable ?s" by (rule reachable.after) (rule reachable.start)
  have c: "evCache ?s = [pointerAt 1 10 400]"
    by (simp add: step_def handlePointerDown_def Let_def globeView_def browser_def
        initialState_def pointerAt_def isNavZone_def)
  have u: "pointerId (pointerAt 2 50 60) \<notin> pointerId ` set (evCache ?s)"
    by (simp add: c) (simp add: pointerAt_def)
  from pointer_up_without_down_is_noop[OF r u, of sphere "globeView [] None True"
      "browser\<lparr>hasPointerCapture := (\<lambda>i. True)\<rparr>"]
    pointer_up_without_down_is_noop[OF r u, of sphere "globeView [] None True" browser]
  have "handlePointerUp (globeView [] None True) browser ?s (pointerAt 2 50 60) = Inr (?s, [])"
    by (simp add: browser_def)
  moreover have "handlePointerUp (globeView [] None True)
      (browser\<lparr>hasPointerCapture := (\<lambda>i. True)\<rparr>) ?s (pointerAt 2 50 60) =
      Inr (?s, [ReleasePointerCapture 2])"
    using handlePointerUp_unmatched[OF reachable_sessionInv[OF r] u,
        of "globeView [] None True" "browser\<lparr>hasPointerCapture := (\<lambda>i. True)\<rparr>"]
    by (simp add: globeView_def pointerAt_def)
  ultimately show ?thesis using r c u by simp
qed

section \<open>Auto-framing of the most visited location\<close>

lemma firstSeen_snoc:
  "firstSeen (xs @ [x]) = (if x \<in> set xs then firstSeen xs else firstSeen xs @ [x])"
  by (simp add: firstSeen_def)

lemma set_firstSeen: "set (firstSeen xs) = set xs"
  by (simp add: firstSeen_def)

lemma find_snoc:
  "find P (xs @ [x]) = (case find P xs of Some y \<Rightarrow> Some y | None \<Rightarrow> if P x then Some x else None)"
  by (induction xs) simp_all

lemma find_firstSeen: "find P (firstSeen xs) = find P xs"
proof (induction xs rule: rev_induct)
  case Nil
  show ?case by (simp add: firstSeen_def)
next
  case (snoc x xs)
  show ?case
  proof (cases "x \<in> set xs")
    case True
    then have "find P xs = None \<Longrightarrow> \<not> P x" by (auto simp: find_None_iff)
    with True snoc show ?thesis
      by (auto simp: firstSeen_snoc find_snoc split: option.splits)
  next
    case False
    with snoc show ?thesis by (simp add: firstSeen_snoc find_snoc)
  qed
qed

lemma locCounts_bumps: "foldl tally_trip lc ts = bumps lc (visits ts)"
  by (induction ts arbitrary: lc) (simp_all add: visits_def bumps_def tally_trip_def)

lemma bumps_snoc: "bumps lc (vs @ [(n, c)]) = bump n c (bumps lc vs)"
  by (simp add: bumps_def)

lemma map_of_locEntries:
  "map_of (map (locEntry vs) ns) n = (if n \<in> set ns then Some (snd (locEntry vs n)) else None)"
  by (induction ns) (auto simp: locEntry_def)

lemma locEntry_snoc_other:
  "k \<noteq> n \<Longrightarrow> k \<in> fst ` set vs \<Longrightarrow> locEntry (vs @ [(n, c)]) k = locEntry vs k"
  by (auto simp: locEntry_def map_add_def split: option.splits
      dest: weak_map_of_SomeI simp: map_of_eq_None_iff)

lemma locEntry_snoc_new:
  "n \<notin> fst ` set vs \<Longrightarrow> locEntry (vs @ [(n, c)]) n = (n, \<lparr>count = 1, loc_coords = c\<rparr>)"
  by (simp add: locEntry_def map_add_def map_of_eq_None_iff[symmetric] split: option.splits)

lemma locEntry_snoc_old:
  "n \<in> fst ` set vs \<Longrightarrow>
   locEntry (vs @ [(n, c)]) n = (n, (snd (locEntry vs n))\<lparr>count := count (snd (locEntry vs n)) + 1\<rparr>)"
  by (auto simp: locEntry_def map_add_def map_of_eq_None_iff split: option.splits)

lemma incr_locEntries:
  assumes "set ns \<subseteq> fst ` set vs"
  shows "map (\<lambda>(k, v). if k = n then (k, v\<lparr>count := count v + 1\<rparr>) else (k, v))
           (map (locEntry vs) ns) = map (locEntry (vs @ [(n, c)])) ns"
  using assms
proof (induction ns)
  case Nil
  show ?case by simp
next
  case (Cons k ns)
  then have mem: "k \<in> fst ` set vs" by simp
  have "(if k = n then (k, (snd (locEntry vs k))\<lparr>count := count (snd (locEntry vs k)) + 1\<rparr>)
         else locEntry vs k) = locEntry (vs @ [(n, c)]) k"
  proof (cases "k = n")
    case True
    with mem have "n \<in> fst ` set vs" by simp
    from locEntry_snoc_old[OF this, of c] True show ?thesis by simp
  next
    case False
    from locEntry_snoc_other[OF False mem, of c] False show ?thesis by simp
  qed
  moreover have "fst (locEntry vs k) = k" by (simp add: locEntry_def)
  ultimately have "(case locEntry vs k of (k', v) \<Rightarrow>
        if k' = n then (k', v\<lparr>count := count v + 1\<rparr>) else (k', v)) = locEntry (vs @ [(n, c)]) k"
    by (cases "locEntry vs k") auto
  with Cons show ?case by simp
qed

lemma bump_locEntries:
  assumes "set ns = fst ` set vs" and "\<not> inherited n"
  shows "bump n c (map (locEntry vs) ns) =
           map (locEntry (vs @ [(n, c)])) (if n \<in> set ns then ns else ns @ [n])"
proof (cases "n \<in> set ns")
  case True
  with incr_locEntries[of ns vs n c] assms show ?thesis
    by (simp add: bump_def map_of_locEntries)
next
  case False
  then have "n \<notin> fst ` set vs" using assms by simp
  with False incr_locEntries[of ns vs n c] assms show ?thesis
    by (simp add: bump_def map_of_locEntries locEntry_snoc_new)
qed

lemma bumps_locEntries:
  assumes "\<forall>v \<in> set vs. \<not> inherited (fst v)"
  shows "bumps [] vs = map (locEntry vs) (firstSeen (map fst vs))"
  using assms
proof (induction vs rule: rev_induct)
  case Nil
  show ?case by (simp add: bumps_def firstSeen_def)
next
  case (snoc v vs)
  obtain n c where v: "v = (n, c)" by (cases v)
  from snoc.prems v have own: "\<not> inherited n" by simp
  from snoc.prems have "\<forall>v \<in> set vs. \<not> inherited (fst v)" by simp
  then have "bumps [] (vs @ [(n, c)]) = bump n c (map (locEntry vs) (firstSeen (map fst vs)))"
    using snoc.IH by (simp add: bumps_snoc)
  also have "\<dots> = map (locEntry (vs @ [(n, c)]))
      (if n \<in> set (firstSeen (map fst vs)) then firstSeen (map fst vs)
       else firstSeen (map fst vs) @ [n])"
    using own by (intro bump_locEntries) (simp add: set_firstSeen)
  also have "\<dots> = map (locEntry (vs @ [(n, c)])) (firstSeen (map fst (vs @ [(n, c)])))"
    by (simp add: firstSeen_snoc set_firstSeen)
  finally show ?case by (simp add: v)
qed

lemma ordinary_visits:
  assumes "ordinaryNames ts" and "v \<in> set (visits ts)"
  shows "ordinary (fst v)"
  using assms by (auto simp: ordinaryNames_def visits_def list_all_iff)

lemma locCounts_locEntries:
  assumes "ordinaryNames ts"
  shows "locCounts ts = map (locEntry (visits ts)) (firstSeen (map fst (visits ts)))"
proof -
  have "\<forall>v \<in> set (visits ts). \<not> inherited (fst v)"
    using ordinary_visits[OF assms] by (simp add: ordinary_def)
  then show ?thesis
    by (simp add: locCounts_def locCounts_bumps bumps_locEntries)
qed

lemma objectValues_plain:
  assumes "\<forall>e \<in> set obj. \<not> isArrayIndex (fst e)"
  shows "objectValues obj = map snd obj"
proof -
  have "filter (\<lambda>(k, v). isArrayIndex k) obj = []"
    using assms by (auto simp: filter_empty_conv)
  moreover have "filter (\<lambda>(k, v). \<not> isArrayIndex k) obj = obj"
    using assms by (auto simp: filter_id_conv)
  ultimately show ?thesis by (simp add: objectValues_def)
qed

lemma pick_first_max:
  "foldl (\<lambda>best c. if count c > count best then c else best) b cs =
     (if \<forall>c \<in> set cs. count c \<le> count b then b
      else the (find (\<lambda>c. \<forall>x \<in> set cs. count x \<le> count c) cs))"
proof (induction cs arbitrary: b)
  case Nil
  show ?case by simp
next
  case (Cons c cs)
  show ?case
  proof (cases "count c > count b")
    case True
    show ?thesis
    proof (cases "\<forall>x \<in> set cs. count x \<le> count c")
      case all: True
      with True Cons[of c] show ?thesis by auto
    next
      case False
      then obtain y where y: "y \<in> set cs" "count c < count y" by force
      then have skip: "\<not> (\<forall>x \<in> set (c # cs). count x \<le> count c)" by force
      have "find (\<lambda>z. \<forall>x \<in> set (c # cs). count x \<le> count z) cs =
            find (\<lambda>z. \<forall>x \<in> set cs. count x \<le> count z) cs"
        by (rule find_cong) (use y in force)+
      with True False skip Cons[of c] show ?thesis by auto
    qed
  next
    case False
    show ?thesis
    proof (cases "\<forall>x \<in> set cs. count x \<le> count b")
      case all: True
      with False Cons[of b] show ?thesis by auto
    next
      case ex: False
      then obtain y where y: "y \<in> set cs" "count b < count y" by force
      with False have skip: "\<not> (\<forall>x \<in> set (c # cs). count x \<le> count c)" by force
      have "find (\<lambda>z. \<forall>x \<in> set (c # cs). count x \<le> count z) cs =
            find (\<lambda>z. \<forall>x \<in> set cs. count x \<le> count z) cs"
        by (rule find_cong) (use y False in force)+
      with False ex skip Cons[of b] show ?thesis by auto
    qed
  qed
qed

lemma find_map: "find P (map f xs) = map_option f (find (\<lambda>x. P (f x)) xs)"
  by (induction xs) simp_all

lemma count_locEntry: "count (snd (locEntry vs n)) = int (count_list (map fst vs) n)"
  by (simp add: locEntry_def)

lemma visits_nonempty: "ts \<noteq> [] \<Longrightarrow> visits ts \<noteq> []"
  by (cases ts) (simp_all add: visits_def)

lemma mostVisited_maximal:
  "mostVisited ts = find (\<lambda>n. \<forall>m \<in> set (map fst (visits ts)). tally ts m \<le> tally ts n)
                      (map fst (visits ts))"
  unfolding mostVisited_def Let_def
proof (rule find_cong[OF refl])
  fix n assume n: "n \<in> set (map fst (visits ts))"
  let ?A = "set (map (tally ts) (map fst (visits ts)))"
  have fin: "finite ?A" by simp
  have ne: "?A \<noteq> {}" using n by auto
  have mem: "tally ts n \<in> ?A" using n by auto
  show "(tally ts n = Max ?A) = (\<forall>m \<in> set (map fst (visits ts)). tally ts m \<le> tally ts n)"
  proof
    assume "tally ts n = Max ?A"
    then show "\<forall>m \<in> set (map fst (visits ts)). tally ts m \<le> tally ts n"
      using fin by (metis Max_ge image_eqI list.set_map)
  next
    assume "\<forall>m \<in> set (map fst (visits ts)). tally ts m \<le> tally ts n"
    then have "\<forall>a \<in> ?A. a \<le> tally ts n" by auto
    with fin mem show "tally ts n = Max ?A" by (metis Max_eqI)
  qed
qed

lemma mostVisited_exists:
  assumes "ts \<noteq> []"
  shows "\<exists>n. mostVisited ts = Some n"
proof -
  let ?ns = "map fst (visits ts)"
  let ?A = "tally ts ` set ?ns"
  have "?A \<noteq> {}" using visits_nonempty[OF assms] by simp
  moreover have "finite ?A" by simp
  ultimately have "Max ?A \<in> ?A" by (rule Max_in[rotated])
  then obtain n where "n \<in> set ?ns" "tally ts n = Max ?A" by (metis imageE)
  then have "find (\<lambda>n. tally ts n = Max ?A) ?ns \<noteq> None"
    unfolding find_None_iff by blast
  then show ?thesis unfolding mostVisited_def Let_def set_map by blast
qed

lemma topLoc_mostVisited:
  assumes "ts \<noteq> []" and "mostVisited ts = Some n" and "ordinaryNames ts"
  shows "topLoc (locCounts ts) = snd (locEntry (visits ts) n)"
proof -
  let ?vs = "visits ts"
  let ?ns = "map fst ?vs"
  let ?fo = "firstSeen ?ns"
  let ?cs = "map snd (map (locEntry ?vs) ?fo)"
  obtain v where v: "v \<in> set ?vs" using visits_nonempty[OF assms(1)] by (cases ?vs) auto
  then have "fst v \<in> set ?fo" by (simp add: set_firstSeen)
  moreover have "count (snd (locEntry ?vs (fst v))) > - 1" by (simp add: count_locEntry)
  ultimately have nb: "\<not> (\<forall>c \<in> set ?cs. count c \<le> count \<lparr>count = - 1, loc_coords = (0, 0)\<rparr>)"
    by force
  have "topLoc (locCounts ts) =
        (if \<forall>c \<in> set ?cs. count c \<le> count \<lparr>count = - 1, loc_coords = (0, 0)\<rparr>
         then \<lparr>count = - 1, loc_coords = (0, 0)\<rparr>
         else the (find (\<lambda>c. \<forall>x \<in> set ?cs. count x \<le> count c) ?cs))"
  proof -
    have "\<forall>e \<in> set (map (locEntry ?vs) ?fo). \<not> isArrayIndex (fst e)"
      using ordinary_visits[OF assms(3)]
      by (auto simp: set_firstSeen locEntry_def ordinary_def)
    then have "objectValues (map (locEntry ?vs) ?fo) = ?cs"
      by (rule objectValues_plain)
    then show ?thesis
      unfolding topLoc_def locCounts_locEntries[OF assms(3)] by (simp only: pick_first_max)
  qed
  then have "topLoc (locCounts ts) =
        the (find (\<lambda>c. \<forall>x \<in> set ?cs. count x \<le> count c) ?cs)"
    using nb by (simp only: if_not_P if_False)
  also have "find (\<lambda>c. \<forall>x \<in> set ?cs. count x \<le> count c) ?cs =
        map_option (\<lambda>k. snd (locEntry ?vs k))
          (find (\<lambda>k. \<forall>m \<in> set ?ns. tally ts m \<le> tally ts k) ?fo)"
    by (simp add: find_map o_def count_locEntry set_firstSeen tally_def)
  also have "find (\<lambda>k. \<forall>m \<in> set ?ns. tally ts m \<le> tally ts k) ?fo = Some n"
    using assms(2) by (simp add: find_firstSeen mostVisited_maximal)
  finally show ?thesis by simp
qed

lemma mostVisited_visited:
  assumes "mostVisited ts = Some n"
  shows "n \<in> fst ` set (visits ts)"
  using assms by (auto simp: mostVisited_def Let_def find_Some_iff)

text \<open>
  C4 as stated fails: for one trip from Brisbane to the town of 1770 both names have
  tally 1 and Brisbane is met first, but the key \<open>1770\<close> is an array index, so
  \<^verbatim>\<open>Object.values\<close> lists it first and the camera is centred on 1770.
\<close>

theorem autoCenter_tie_not_first_encountered:
  "mostVisited [journey ''t1'' (place ''Brisbane'' (-27) 153) (place ''1770'' (-24) 152)] =
     Some ''Brisbane'' \<and>
   tally [journey ''t1'' (place ''Brisbane'' (-27) 153) (place ''1770'' (-24) 152)] ''Brisbane'' =
   tally [journey ''t1'' (place ''Brisbane'' (-27) 153) (place ''1770'' (-24) 152)] ''1770'' \<and>
   rotation (fst (autoCenter sphere
     (globeView [journey ''t1'' (place ''Brisbane'' (-27) 153) (place ''1770'' (-24) 152)]
        None True) initialState)) = (-152, 24) \<and>
   rotation (fst (autoCenter sphere
     (globeView [journey ''t1'' (place ''Brisbane'' (-27) 153) (place ''1770'' (-24) 152)]
        None True) initialState)) \<noteq> (-153, 27)"
proof -
  let ?ts = "[journey ''t1'' (place ''Brisbane'' (-27) 153) (place ''1770'' (-24) 152)]"
  have vs: "visits ?ts = [(''Brisbane'', (153, -27)), (''1770'', (152, -24))]"
    by (simp add: visits_def journey_def place_def point_of_def)
  have mv: "mostVisited ?ts = Some ''Brisbane''"
    by (simp add: mostVisited_def tally_def vs)
  have ty: "tally ?ts ''Brisbane'' = tally ?ts ''1770''"
    by (simp add: tally_def vs)
  have ix: "isArrayIndex ''1770''" "\<not> isArrayIndex ''Brisbane''" "indexValue ''1770'' = 1770"
    by (simp_all add: isArrayIndex_def indexValue_def digitValue_def)
  have inh: "\<not> inherited ''1770''" "\<not> inherited ''Brisbane''"
    by (simp_all add: inherited_def objectPrototypeMembers_def)
  have lc: "locCounts ?ts =
      [(''Brisbane'', \<lparr>count = 1, loc_coords = (153, -27)\<rparr>),
       (''1770'', \<lparr>count = 1, loc_coords = (152, -24)\<rparr>)]"
    by (simp add: locCounts_def tally_trip_def bump_def inh journey_def place_def point_of_def)
  have ov: "objectValues (locCounts ?ts) =
      [\<lparr>count = 1, loc_coords = (152, -24)\<rparr>, \<lparr>count = 1, loc_coords = (153, -27)\<rparr>]"
    unfolding lc by (simp add: objectValues_def ix)
  have "topLoc (locCounts ?ts) = \<lparr>count = 1, loc_coords = (152, -24)\<rparr>"
    unfolding topLoc_def ov by simp
  then have "rotation (fst (autoCenter sphere (globeView ?ts None True) initialState)) = (-152, 24)"
    by (simp add: autoCenter_def targetCamera_def globeView_def)
  with mv ty show ?thesis by simp
qed

text \<open>
  C4, amended. Without a highlighted trip, with at least one trip and with ordinary
  location names (none an array index, none the name of a member of Object.prototype),
  autoCenter centres the globe on the most visited location: the name with the highest
  tally over the origins and destinations of all trips, the first one met among names of
  equal tally; the rotation is the negation of the coordinates of that name's first
  occurrence and the zoom is 1.
\<close>

theorem autoCenter_frames_most_visited:
  assumes "highlightTrip props = None" and "trips props \<noteq> []"
    and "ordinaryNames (trips props)"
  shows "\<exists>n c. mostVisited (trips props) = Some n \<and>
               map_of (visits (trips props)) n = Some c \<and>
               0 < tally (trips props) n \<and>
               rotation (fst (autoCenter lib props s)) = (- fst c, - snd c) \<and>
               zoom (fst (autoCenter lib props s)) = 1"
proof -
  obtain n where n: "mostVisited (trips props) = Some n"
    using mostVisited_exists[OF assms(2)] by blast
  then have mem: "n \<in> fst ` set (visits (trips props))" by (rule mostVisited_visited)
  then obtain c where c: "map_of (visits (trips props)) n = Some c"
    by (metis map_of_eq_None_iff not_Some_eq)
  have "count_list (map fst (visits (trips props))) n \<noteq> 0"
    using mem by (simp add: count_list_0_iff)
  then have pos: "0 < tally (trips props) n"
    by (simp add: tally_def)
  have top: "topLoc (locCounts (trips props)) = \<lparr>count = int (tally (trips props) n), loc_coords = c\<rparr>"
    using topLoc_mostVisited[OF assms(2) n assms(3)] c by (simp add: locEntry_def tally_def)
  have "targetCamera lib props = ((- fst c, - snd c), 1)"
    using assms pos by (simp add: targetCamera_def Let_def top)
  then have "rotation (fst (autoCenter lib props s)) = (- fst c, - snd c) \<and>
             zoom (fst (autoCenter lib props s)) = 1"
    by (simp add: autoCenter_def)
  with n c pos show ?thesis by blast
qed

lemma sample_visits:
  "visits [journey ''t1'' (place ''A'' 10 20) (place ''B'' 30 40),
           journey ''t2'' (place ''A'' 10 20) (place ''C'' 50 60),
           journey ''t3'' (place ''A'' 10 20) (place ''D'' 70 80)] =
     [(''A'', (20, 10)), (''B'', (40, 30)), (''A'', (20, 10)), (''C'', (60, 50)),
      (''A'', (20, 10)), (''D'', (80, 70))]"
  by (simp add: visits_def journey_def place_def point_of_def)

lemma sample_mostVisited:
  "mostVisited [journey ''t1'' (place ''A'' 10 20) (place ''B'' 30 40),
                journey ''t2'' (place ''A'' 10 20) (place ''C'' 50 60),
                journey ''t3'' (place ''A'' 10 20) (place ''D'' 70 80)] = Some ''A''"
  by (simp add: mostVisited_def tally_def sample_visits)

theorem autoCenter_frames_most_visited_witness:
  "highlightTrip (globeView [journey ''t1'' (place ''A'' 10 20) (place ''B'' 30 40),
                             journey ''t2'' (place ''A'' 10 20) (place ''C'' 50 60),
                             journey ''t3'' (place ''A'' 10 20) (place ''D'' 70 80)] None True) = None \<and>
   mostVisited [journey ''t1'' (place ''A'' 10 20) (place ''B'' 30 40),
                journey ''t2'' (place ''A'' 10 20) (place ''C'' 50 60),
                journey ''t3'' (place ''A'' 10 20) (place ''D'' 70 80)] = Some ''A'' \<and>
   tally [journey ''t1'' (place ''A'' 10 20) (place ''B'' 30 40),
          journey ''t2'' (place ''A'' 10 20) (place ''C'' 50 60),
          journey ''t3'' (place ''A'' 10 20) (place ''D'' 70 80)] ''A'' = 3 \<and>
   rotation (fst (autoCenter sphere
     (globeView [journey ''t1'' (place ''A'' 10 20) (place ''B'' 30 40),
                 journey ''t2'' (place ''A'' 10 20) (place ''C'' 50 60),
                 journey ''t3'' (place ''A'' 10 20) (place ''D'' 70 80)] None True)
     initialState)) = (-20, -10) \<and>
   zoom (fst (autoCenter sphere
     (globeView [journey ''t1'' (place ''A'' 10 20) (place ''B'' 30 40),
                 journey ''t2'' (place ''A'' 10 20) (place ''C'' 50 60),
                 journey ''t3'' (place ''A'' 10 20) (place ''D'' 70 80)] None True)
     initialState)) = 1"
proof -
  let ?ts = "[journey ''t1'' (place ''A'' 10 20) (place ''B'' 30 40),
              journey ''t2'' (place ''A'' 10 20) (place ''C'' 50 60),
              journey ''t3'' (place ''A'' 10 20) (place ''D'' 70 80)]"
  let ?P = "globeView ?ts None True"
  have h: "highlightTrip ?P = None" and t: "trips ?P \<noteq> []" and tr: "trips ?P = ?ts"
    by (simp_all add: globeView_def)
  have o: "ordinaryNames (trips ?P)"
    unfolding tr
    by (simp add: ordinaryNames_def ordinary_def isArrayIndex_def inherited_def
        objectPrototypeMembers_def journey_def place_def)
  from autoCenter_frames_most_visited[OF h t o, of sphere initialState]
  obtain n c where nc: "mostVisited ?ts = Some n" "map_of (visits ?ts) n = Some c"
    "rotation (fst (autoCenter sphere ?P initialState)) = (- fst c, - snd c)"
    "zoom (fst (autoCenter sphere ?P initialState)) = 1"
    unfolding tr by blast
  from nc(1) have n: "n = ''A''" by (simp add: sample_mostVisited)
  from nc(2) have c: "c = (20, 10)" unfolding n sample_visits by simp
  have "tally ?ts ''A'' = 3" by (simp add: tally_def sample_visits)
  with h nc(3,4) show ?thesis unfolding c by (simp add: sample_mostVisited)
qed

text \<open>
  A name that Object.prototype has a member for is never tallied: of two trips from
  \<open>constructor\<close>, to B and to C, the camera is centred on B although
  \<open>constructor\<close> occurs twice.
\<close>

lemma autoCenter_skips_inherited_names:
  "tally [journey ''t1'' (place ''constructor'' 1 2) (place ''B'' 30 40),
          journey ''t2'' (place ''constructor'' 1 2) (place ''C'' 50 60)] ''constructor'' = 2 \<and>
   locCounts [journey ''t1'' (place ''constructor'' 1 2) (place ''B'' 30 40),
              journey ''t2'' (place ''constructor'' 1 2) (place ''C'' 50 60)] =
     [(''B'', \<lparr>count = 1, loc_coords = (40, 30)\<rparr>), (''C'', \<lparr>count = 1, loc_coords = (60, 50)\<rparr>)] \<and>
   rotation (fst (autoCenter sphere
     (globeView [journey ''t1'' (place ''constructor'' 1 2) (place ''B'' 30 40),
                 journey ''t2'' (place ''constructor'' 1 2) (place ''C'' 50 60)] None True)
     initialState)) = (-40, -30)"
proof -
  let ?ts = "[journey ''t1'' (place ''constructor'' 1 2) (place ''B'' 30 40),
              journey ''t2'' (place ''constructor'' 1 2) (place ''C'' 50 60)]"
  have ty: "tally ?ts ''constructor'' = 2"
    by (simp add: tally_def visits_def journey_def place_def)
  have inh: "inherited ''constructor''" "\<not> inherited ''B''" "\<not> inherited ''C''"
    by (simp_all add: inherited_def objectPrototypeMembers_def)
  have ix: "\<not> isArrayIndex ''B''" "\<not> isArrayIndex ''C''"
    by (simp_all add: isArrayIndex_def)
  have lc: "locCounts ?ts =
      [(''B'', \<lparr>count = 1, loc_coords = (40, 30)\<rparr>), (''C'', \<lparr>count = 1, loc_coords = (60, 50)\<rparr>)]"
    by (simp add: locCounts_def tally_trip_def bump_def inh journey_def place_def point_of_def)
  have "topLoc (locCounts ?ts) = \<lparr>count = 1, loc_coords = (40, 30)\<rparr>"
    unfolding lc by (simp add: topLoc_def objectValues_def ix)
  then have "rotation (fst (autoCenter sphere (globeView ?ts None True) initialState)) = (-40, -30)"
    by (simp add: autoCenter_def targetCamera_def globeView_def)
  with ty lc show ?thesis by simp
qed

section \<open>Destination markers\<close>

lemma destPoint_keys: "c \<in> set (destPoint lib proj dims i t) \<Longrightarrow> pkey c = KeyDestAt i"
  by (auto simp: destPoint_def Let_def split: option.splits if_splits)

lemma destPoint_emitted:
  "(destPoint lib proj dims i t \<noteq> []) =
     (\<exists>c q. invert proj (fst dims / 2, snd dims / 2) = Some c \<and>
            project proj (point_of (destination t)) = Some q \<and>
            geoDistance lib (point_of (destination t)) c < pi / 2)"
  by (auto simp: destPoint_def Let_def split: option.splits)

lemma in_set_enumerate0: "((i, t) \<in> set (enumerate 0 ts)) = (i < length ts \<and> ts ! i = t)"
  by (auto simp: in_set_enumerate_eq)

lemma marker_emitted:
  assumes "highlightTrip props = None"
  shows "(KeyDestAt i \<in> pkey ` set (renderPoints lib proj props dims z)) =
         (i < length (trips props) \<and> destPoint lib proj dims i (trips props ! i) \<noteq> [])"
proof -
  have vm: "viewMode props = routes \<or> viewMode props = visited"
    by (cases "viewMode props") simp_all
  have pts: "set (renderPoints lib proj props dims z) =
      (\<Union>(j, t) \<in> set (enumerate 0 (trips props)). set (destPoint lib proj dims j t))"
    using assms vm by (auto simp: renderPoints_def)
  show ?thesis
  proof
    assume "KeyDestAt i \<in> pkey ` set (renderPoints lib proj props dims z)"
    then obtain c j t where c: "(j, t) \<in> set (enumerate 0 (trips props))"
      "c \<in> set (destPoint lib proj dims j t)" "pkey c = KeyDestAt i"
      unfolding pts by force
    from destPoint_keys[OF c(2)] c(3) have "j = i" by simp
    with c show "i < length (trips props) \<and> destPoint lib proj dims i (trips props ! i) \<noteq> []"
      by (auto simp: in_set_enumerate0)
  next
    assume r: "i < length (trips props) \<and> destPoint lib proj dims i (trips props ! i) \<noteq> []"
    then obtain c where c: "c \<in> set (destPoint lib proj dims i (trips props ! i))"
      by (cases "destPoint lib proj dims i (trips props ! i)") auto
    from r have "(i, trips props ! i) \<in> set (enumerate 0 (trips props))"
      by (simp add: in_set_enumerate0)
    with c have "c \<in> set (renderPoints lib proj props dims z)"
      unfolding pts by blast
    with destPoint_keys[OF c] show "KeyDestAt i \<in> pkey ` set (renderPoints lib proj props dims z)"
      by (metis image_eqI)
  qed
qed

text \<open>
  C6. Without a highlighted trip (the view mode is 'routes' or 'visited'), and with a
  projection that gives the view centre and every point of the visible hemisphere a
  position, the renderer emits the marker of trip \<open>i\<close> exactly when the great-circle
  distance from its destination to the view centre is below pi / 2. A destination at
  distance exactly pi / 2, and one at the antipode (distance pi), get no marker.
\<close>

theorem destination_marker_iff_visible:
  assumes "highlightTrip props = None" and "i < length (trips props)"
    and "invert proj (fst dims / 2, snd dims / 2) = Some c"
    and "\<forall>p. project proj p = None \<longrightarrow> pi / 2 \<le> geoDistance lib p c"
  shows "(KeyDestAt i \<in> pkey ` set (renderPoints lib proj props dims z)) =
           (geoDistance lib (point_of (destination (trips props ! i))) c < pi / 2) \<and>
         (geoDistance lib (point_of (destination (trips props ! i))) c = pi / 2 \<longrightarrow>
            KeyDestAt i \<notin> pkey ` set (renderPoints lib proj props dims z)) \<and>
         (geoDistance lib (point_of (destination (trips props ! i))) c = pi \<longrightarrow>
            KeyDestAt i \<notin> pkey ` set (renderPoints lib proj props dims z))"
proof -
  let ?d = "point_of (destination (trips props ! i))"
  have "(KeyDestAt i \<in> pkey ` set (renderPoints lib proj props dims z)) =
        (\<exists>q. project proj ?d = Some q \<and> geoDistance lib ?d c < pi / 2)"
    using assms(2,3) by (simp add: marker_emitted[OF assms(1)] destPoint_emitted)
  also have "\<dots> = (geoDistance lib ?d c < pi / 2)"
  proof (cases "project proj ?d")
    case None
    with assms(4) have "pi / 2 \<le> geoDistance lib ?d c" by blast
    with None show ?thesis by simp
  next
    case (Some q)
    then show ?thesis by simp
  qed
  finally have main: "(KeyDestAt i \<in> pkey ` set (renderPoints lib proj props dims z)) =
      (geoDistance lib ?d c < pi / 2)" .
  then show ?thesis using pi_gt_zero by auto
qed

lemma sphereDistance_same: "sphereDistance (0, 0) (0, 0) = 0"
  by (simp add: sphereDistance_def radians_def atan2_def)

lemma sphereDistance_quarter_back: "sphereDistance (90, 0) (0, 0) = pi / 2"
  by (simp add: sphereDistance_def radians_def atan2_def)

lemma sphereDistance_antipode: "sphereDistance (180, 0) (0, 0) = pi"
  by (simp add: sphereDistance_def radians_def atan2_def)

theorem destination_marker_iff_visible_witness:
  "highlightTrip (globeView [journey ''t1'' (place ''A'' 10 20) (place ''Near'' 0 0),
                             journey ''t2'' (place ''A'' 10 20) (place ''Rim'' 0 90),
                             journey ''t3'' (place ''A'' 10 20) (place ''Far'' 0 180)] None True) = None \<and>
   invert flatProjection (fst (800, 400) / 2, snd (800, 400) / 2) = Some (0, 0) \<and>
   KeyDestAt 0 \<in> pkey ` set (renderPoints sphere flatProjection
      (globeView [journey ''t1'' (place ''A'' 10 20) (place ''Near'' 0 0),
                  journey ''t2'' (place ''A'' 10 20) (place ''Rim'' 0 90),
                  journey ''t3'' (place ''A'' 10 20) (place ''Far'' 0 180)] None True) (800, 400) 1) \<and>
   KeyDestAt 1 \<notin> pkey ` set (renderPoints sphere flatProjection
      (globeView [journey ''t1'' (place ''A'' 10 20) (place ''Near'' 0 0),
                  journey ''t2'' (place ''A'' 10 20) (place ''Rim'' 0 90),
                  journey ''t3'' (place ''A'' 10 20) (place ''Far'' 0 180)] None True) (800, 400) 1) \<and>
   KeyDestAt 2 \<notin> pkey ` set (renderPoints sphere flatProjection
      (globeView [journey ''t1'' (place ''A'' 10 20) (place ''Near'' 0 0),
                  journey ''t2'' (place ''A'' 10 20) (place ''Rim'' 0 90),
                  journey ''t3'' (place ''A'' 10 20) (place ''Far'' 0 180)] None True) (800, 400) 1)"
proof -
  let ?ts = "[journey ''t1'' (place ''A'' 10 20) (place ''Near'' 0 0),
              journey ''t2'' (place ''A'' 10 20) (place ''Rim'' 0 90),
              journey ''t3'' (place ''A'' 10 20) (place ''Far'' 0 180)]"
  let ?P = "globeView ?ts None True"
  have h: "highlightTrip ?P = None" by (simp add: globeView_def)
  have c: "invert flatProjection (fst (800, 400) / 2, snd (800, 400) / 2) = Some (0, 0)"
    by (simp add: flatProjection_def)
  have t: "\<forall>p. project flatProjection p = None \<longrightarrow> pi / 2 \<le> geoDistance sphere p (0, 0)"
    by (simp add: flatProjection_def)
  have l: "0 < length (trips ?P)" "1 < length (trips ?P)" "2 < length (trips ?P)"
    by (simp_all add: globeView_def)
  have d: "point_of (destination (trips ?P ! 0)) = (0, 0)"
    "point_of (destination (trips ?P ! 1)) = (90, 0)"
    "point_of (destination (trips ?P ! 2)) = (180, 0)"
    by (simp_all add: globeView_def journey_def place_def point_of_def)
  have g: "geoDistance sphere = sphereDistance" by (simp add: sphere_def)
  from destination_marker_iff_visible[OF h l(1) c t, of 1]
    destination_marker_iff_visible[OF h l(2) c t, of 1]
    destination_marker_iff_visible[OF h l(3) c t, of 1]
  have "KeyDestAt 0 \<in> pkey ` set (renderPoints sphere flatProjection ?P (800, 400) 1)"
    "KeyDestAt 1 \<notin> pkey ` set (renderPoints sphere flatProjection ?P (800, 400) 1)"
    "KeyDestAt 2 \<notin> pkey ` set (renderPoints sphere flatProjection ?P (800, 400) 1)"
    unfolding d g sphereDistance_same sphereDistance_quarter_back sphereDistance_antipode
    using pi_gt_zero by simp_all
  with h c show ?thesis by blast
qed

section \<open>Word cloud\<close>

lemma length_cloudItems: "length (cloudItems ts) = min 50 (length (foldl countTrip [] ts))"
  by (simp add: cloudItems_def Let_def)

lemma length_cloudLabels: "length (cloudLabels ts) = min 50 (length (foldl countTrip [] ts))"
  by (simp add: cloudLabels_def Let_def length_cloudItems)

lemma addWord_nonempty: "addWord k ty txt cs \<noteq> []"
  by (auto simp: addWord_def Let_def)

lemma length_addWord: "length cs \<le> length (addWord k ty txt cs)"
  by (simp add: addWord_def Let_def)

lemma length_countTrip: "length cs \<le> length (countTrip cs t)"
proof -
  have step: "length cs \<le> length (if b then addWord k ty w xs else xs)"
    if "length cs \<le> length xs" for b k ty w xs
    using that length_addWord[of xs k ty w] by simp
  show ?thesis
    unfolding countTrip_def Let_def by (intro step order_refl)
qed

lemma length_foldl_countTrip: "length cs \<le> length (foldl countTrip cs ts)"
proof (induction ts arbitrary: cs)
  case Nil
  show ?case by simp
next
  case (Cons t ts)
  from length_countTrip[of cs t] Cons[of "countTrip cs t"] show ?case by simp
qed

lemma countTrip_givesWord:
  assumes "givesWord t"
  shows "countTrip cs t \<noteq> []"
proof -
  let ?c = "js_or (country (destination t)) (country (origin t))"
  let ?p = "js_or (state (destination t)) (state (origin t))"
  let ?cs1 = "if truthy ?c then addWord (''c-'' @ the ?c) country_word (the ?c) cs else cs"
  let ?cs2 = "if truthy ?p then addWord (''p-'' @ the ?p) province_word (the ?p) ?cs1 else ?cs1"
  have eq: "countTrip cs t =
      (if cityWord t \<noteq> [] then addWord (''ct-'' @ cityWord t) city_word (cityWord t) ?cs2
       else ?cs2)"
    by (simp add: countTrip_def Let_def)
  have one: "truthy ?c \<Longrightarrow> ?cs1 \<noteq> []" by (simp add: addWord_nonempty)
  have two: "?cs1 \<noteq> [] \<or> truthy ?p \<Longrightarrow> ?cs2 \<noteq> []" by (auto simp: addWord_nonempty)
  have three: "?cs2 \<noteq> [] \<or> cityWord t \<noteq> [] \<Longrightarrow> countTrip cs t \<noteq> []"
    unfolding eq by (auto simp: addWord_nonempty)
  from assms one two three show ?thesis
    unfolding givesWord_def by blast
qed

lemma countTrip_no_word: "\<not> givesWord t \<Longrightarrow> countTrip cs t = cs"
  by (simp add: givesWord_def countTrip_def Let_def)

lemma foldl_countTrip_nonempty:
  assumes "t \<in> set ts" and "givesWord t"
  shows "foldl countTrip cs ts \<noteq> []"
  using assms(1)
proof (induction ts arbitrary: cs)
  case Nil
  then show ?case by simp
next
  case (Cons u us)
  show ?case
  proof (cases "u = t")
    case True
    have "0 < length (countTrip cs t)" using countTrip_givesWord[OF assms(2)] by simp
    with length_foldl_countTrip[of "countTrip cs t" us] True show ?thesis by auto
  next
    case False
    with Cons show ?thesis by simp
  qed
qed

lemma foldl_countTrip_no_word:
  "\<forall>t \<in> set ts. \<not> givesWord t \<Longrightarrow> foldl countTrip cs ts = cs"
  by (induction ts arbitrary: cs) (simp_all add: countTrip_no_word)

lemma cloudLabels_nonempty:
  "(cloudLabels ts \<noteq> []) = (\<exists>t \<in> set ts. givesWord t)"
proof
  assume "cloudLabels ts \<noteq> []"
  then have "0 < length (cloudLabels ts)" by simp
  then have "foldl countTrip [] ts \<noteq> []" by (simp add: length_cloudLabels)
  then show "\<exists>t \<in> set ts. givesWord t"
    using foldl_countTrip_no_word[of ts "[]"] by blast
next
  assume "\<exists>t \<in> set ts. givesWord t"
  then obtain t where "t \<in> set ts" "givesWord t" by blast
  from foldl_countTrip_nonempty[OF this, of "[]"] have "0 < length (cloudLabels ts)"
    by (simp add: length_cloudLabels)
  then show "cloudLabels ts \<noteq> []" by auto
qed

text \<open>
  C7. The word cloud never has more than 50 labels, however many names the trips carry,
  and it has none when a trip is highlighted.
\<close>

theorem wordCloud_at_most_50:
  "length (wordCloudElements props) \<le> 50 \<and>
   (highlightTrip props \<noteq> None \<longrightarrow> wordCloudElements props = [])"
  by (simp add: wordCloudElements_def length_cloudLabels)

lemma sample_cloud:
  "map label_text (cloudLabels
      [journey ''t1'' (place ''Paris'' 48 2) ((place ''Lyon'' 45 4)\<lparr>country := Some ''France''\<rparr>),
       journey ''t2'' (place ''Lyon'' 45 4) ((place ''Nice'' 43 7)\<lparr>country := Some ''France''\<rparr>)]) =
   [''France'', ''Lyon'', ''Nice'']"
  by (simp add: cloudLabels_def cloudItems_def countTrip_def cityWord_def addWord_def js_or_def
      truthy_def journey_def place_def Let_def cloudLabel_def enumerate_eq_zip upt_rec)

theorem wordCloud_at_most_50_witness:
  "highlightTrip (globeView [journey ''t1'' (place ''Paris'' 48 2) (place ''Lyon'' 45 4)]
      (Some (journey ''t1'' (place ''Paris'' 48 2) (place ''Lyon'' 45 4))) True) \<noteq> None \<and>
   wordCloudElements (globeView [journey ''t1'' (place ''Paris'' 48 2) (place ''Lyon'' 45 4)]
      (Some (journey ''t1'' (place ''Paris'' 48 2) (place ''Lyon'' 45 4))) True) = [] \<and>
   length (wordCloudElements (globeView
      [journey ''t1'' (place ''Paris'' 48 2) ((place ''Lyon'' 45 4)\<lparr>country := Some ''France''\<rparr>),
       journey ''t2'' (place ''Lyon'' 45 4) ((place ''Nice'' 43 7)\<lparr>country := Some ''France''\<rparr>)]
      None True)) = 3"
proof -
  have "length (wordCloudElements (globeView
      [journey ''t1'' (place ''Paris'' 48 2) ((place ''Lyon'' 45 4)\<lparr>country := Some ''France''\<rparr>),
       journey ''t2'' (place ''Lyon'' 45 4) ((place ''Nice'' 43 7)\<lparr>country := Some ''France''\<rparr>)]
      None True)) = length (map label_text (cloudLabels
      [journey ''t1'' (place ''Paris'' 48 2) ((place ''Lyon'' 45 4)\<lparr>country := Some ''France''\<rparr>),
       journey ''t2'' (place ''Lyon'' 45 4) ((place ''Nice'' 43 7)\<lparr>country := Some ''France''\<rparr>)]))"
    by (simp add: wordCloudElements_def globeView_def)
  then have three: "length (wordCloudElements (globeView
      [journey ''t1'' (place ''Paris'' 48 2) ((place ''Lyon'' 45 4)\<lparr>country := Some ''France''\<rparr>),
       journey ''t2'' (place ''Lyon'' 45 4) ((place ''Nice'' 43 7)\<lparr>country := Some ''France''\<rparr>)]
      None True)) = 3"
    unfolding sample_cloud by simp
  have h: "highlightTrip (globeView [journey ''t1'' (place ''Paris'' 48 2) (place ''Lyon'' 45 4)]
      (Some (journey ''t1'' (place ''Paris'' 48 2) (place ''Lyon'' 45 4))) True) \<noteq> None"
    by (simp add: globeView_def)
  from wordCloud_at_most_50[of "globeView [journey ''t1'' (place ''Paris'' 48 2) (place ''Lyon'' 45 4)]
      (Some (journey ''t1'' (place ''Paris'' 48 2) (place ''Lyon'' 45 4))) True"] h three
  show ?thesis by blast
qed

text \<open>
  C10 as stated fails. An interactive view without a highlighted trip and without trips
  has no word cloud to draw, whatever the flag; with trips that give words nothing is
  drawn either while the geometry is missing; and with the flag set on an interactive
  view a highlighted trip still suppresses the word cloud.
\<close>

theorem wordCloud_not_drawn_on_every_interactive_view:
  "interactionEnabled (globeView [] None True) \<and>
   highlightTrip (globeView [] None True) = None \<and>
   wordCloudElements (globeView [] None True) = [] \<and>
   \<not> rendersWordCloud (globeView [] None True) (Some ''land'') \<and>
   \<not> rendersWordCloud (globeView
      [journey ''t1'' (place ''Paris'' 48 2) ((place ''Lyon'' 45 4)\<lparr>country := Some ''France''\<rparr>)]
      None True) (None :: string option) \<and>
   wordCloudElements ((globeView
      [journey ''t1'' (place ''Paris'' 48 2) ((place ''Lyon'' 45 4)\<lparr>country := Some ''France''\<rparr>)]
      (Some (journey ''t1'' (place ''Paris'' 48 2)
         ((place ''Lyon'' 45 4)\<lparr>country := Some ''France''\<rparr>))) True)
      \<lparr>enableWordCloud := True\<rparr>) = []"
  by (simp add: globeView_def wordCloudElements_def rendersWordCloud_def cloudLabels_def
      cloudItems_def)

text \<open>
  C10, amended. The first early return needs the flag \<open>enableWordCloud\<close> to be false
  and the view to be non-interactive; the second one suppresses the word cloud whenever a
  trip is highlighted. With the flag set or the view interactive, and no trip
  highlighted, the result is the word cloud of the trips. So on an interactive view the
  flag changes nothing: without a highlighted trip the view gets the word cloud of its
  trips also when the flag is false (its default). The background layer is drawn exactly
  when the geometry is loaded, the flag is set or the view is interactive, no trip is
  highlighted and some trip gives a word.
\<close>

theorem wordCloud_flag_alone_does_not_disable:
  "(\<not> enableWordCloud props \<and> \<not> interactionEnabled props \<longrightarrow> wordCloudElements props = []) \<and>
   (highlightTrip props \<noteq> None \<longrightarrow> wordCloudElements props = []) \<and>
   ((enableWordCloud props \<or> interactionEnabled props) \<and> highlightTrip props = None \<longrightarrow>
      wordCloudElements props = cloudLabels (trips props)) \<and>
   (interactionEnabled props \<longrightarrow>
      wordCloudElements (props\<lparr>enableWordCloud := False\<rparr>) =
      wordCloudElements (props\<lparr>enableWordCloud := True\<rparr>)) \<and>
   (interactionEnabled props \<and> highlightTrip props = None \<longrightarrow>
      wordCloudElements (props\<lparr>enableWordCloud := False\<rparr>) = cloudLabels (trips props)) \<and>
   rendersWordCloud props geometry =
     (geometry \<noteq> None \<and> (enableWordCloud props \<or> interactionEnabled props) \<and>
      highlightTrip props = None \<and> (\<exists>t \<in> set (trips props). givesWord t)) \<and>
   (interactionEnabled props \<and> highlightTrip props = None \<longrightarrow>
      rendersWordCloud (props\<lparr>enableWordCloud := False\<rparr>) geometry =
        (geometry \<noteq> None \<and> (\<exists>t \<in> set (trips props). givesWord t)))"
proof -
  have gates: "(\<not> enableWordCloud props \<and> \<not> interactionEnabled props \<longrightarrow>
        wordCloudElements props = []) \<and>
     (highlightTrip props \<noteq> None \<longrightarrow> wordCloudElements props = []) \<and>
     ((enableWordCloud props \<or> interactionEnabled props) \<and> highlightTrip props = None \<longrightarrow>
        wordCloudElements props = cloudLabels (trips props)) \<and>
     (interactionEnabled props \<longrightarrow>
        wordCloudElements (props\<lparr>enableWordCloud := False\<rparr>) =
        wordCloudElements (props\<lparr>enableWordCloud := True\<rparr>)) \<and>
     (interactionEnabled props \<and> highlightTrip props = None \<longrightarrow>
        wordCloudElements (props\<lparr>enableWordCloud := False\<rparr>) = cloudLabels (trips props))"
    by (simp add: wordCloudElements_def)
  have drawn: "rendersWordCloud q geometry =
      (geometry \<noteq> None \<and> (enableWordCloud q \<or> interactionEnabled q) \<and>
       highlightTrip q = None \<and> (\<exists>t \<in> set (trips q). givesWord t))" for q
  proof (cases geometry)
    case None
    then show ?thesis by (simp add: rendersWordCloud_def)
  next
    case (Some g)
    show ?thesis
    proof (cases "(enableWordCloud q \<or> interactionEnabled q) \<and> highlightTrip q = None")
      case True
      then have "wordCloudElements q = cloudLabels (trips q)"
        by (auto simp: wordCloudElements_def)
      with Some True show ?thesis
        by (simp add: rendersWordCloud_def cloudLabels_nonempty)
    next
      case False
      then have "wordCloudElements q = []"
        by (auto simp: wordCloudElements_def)
      with Some False show ?thesis
        by (auto simp: rendersWordCloud_def)
    qed
  qed
  have off: "rendersWordCloud (props\<lparr>enableWordCloud := False\<rparr>) geometry =
      (geometry \<noteq> None \<and> (\<exists>t \<in> set (trips props). givesWord t))"
    if "interactionEnabled props" "highlightTrip props = None"
    using that by (simp add: drawn[of "props\<lparr>enableWordCloud := False\<rparr>"])
  from off have off': "interactionEnabled props \<and> highlightTrip props = None \<longrightarrow>
      rendersWordCloud (props\<lparr>enableWordCloud := False\<rparr>) geometry =
        (geometry \<noteq> None \<and> (\<exists>t \<in> set (trips props). givesWord t))"
    by (intro impI) (elim conjE)
  from gates drawn[of props] off' show ?thesis by (intro conjI) (elim conjE, assumption)+
qed

theorem wordCloud_flag_alone_does_not_disable_witness:
  "\<not> enableWordCloud (globeView
      [journey ''t1'' (place ''Paris'' 48 2) ((place ''Lyon'' 45 4)\<lparr>country := Some ''France''\<rparr>),
       journey ''t2'' (place ''Lyon'' 45 4) ((place ''Nice'' 43 7)\<lparr>country := Some ''France''\<rparr>)]
      None True) \<and>
   interactionEnabled (globeView
      [journey ''t1'' (place ''Paris'' 48 2) ((place ''Lyon'' 45 4)\<lparr>country := Some ''France''\<rparr>),
       journey ''t2'' (place ''Lyon'' 45 4) ((place ''Nice'' 43 7)\<lparr>country := Some ''France''\<rparr>)]
      None True) \<and>
   rendersWordCloud (globeView
      [journey ''t1'' (place ''Paris'' 48 2) ((place ''Lyon'' 45 4)\<lparr>country := Some ''France''\<rparr>),
       journey ''t2'' (place ''Lyon'' 45 4) ((place ''Nice'' 43 7)\<lparr>country := Some ''France''\<rparr>)]
      None True) (Some ''land'') \<and>
   \<not> rendersWordCloud (globeView
      [journey ''t1'' (place ''Paris'' 48 2) ((place ''Lyon'' 45 4)\<lparr>country := Some ''France''\<rparr>),
       journey ''t2'' (place ''Lyon'' 45 4) ((place ''Nice'' 43 7)\<lparr>country := Some ''France''\<rparr>)]
      None True) (None :: string option) \<and>
   map label_text (wordCloudElements (globeView
      [journey ''t1'' (place ''Paris'' 48 2) ((place ''Lyon'' 45 4)\<lparr>country := Some ''France''\<rparr>),
       journey ''t2'' (place ''Lyon'' 45 4) ((place ''Nice'' 43 7)\<lparr>country := Some ''France''\<rparr>)]
      None True)) = [''France'', ''Lyon'', ''Nice''] \<and>
   wordCloudElements (globeView
      [journey ''t1'' (place ''Paris'' 48 2) ((place ''Lyon'' 45 4)\<lparr>country := Some ''France''\<rparr>),
       journey ''t2'' (place ''Lyon'' 45 4) ((place ''Nice'' 43 7)\<lparr>country := Some ''France''\<rparr>)]
      None False) = []"
proof -
  let ?ts = "[journey ''t1'' (place ''Paris'' 48 2) ((place ''Lyon'' 45 4)\<lparr>country := Some ''France''\<rparr>),
       journey ''t2'' (place ''Lyon'' 45 4) ((place ''Nice'' 43 7)\<lparr>country := Some ''France''\<rparr>)]"
  have f: "\<not> enableWordCloud (globeView ?ts None True)" "interactionEnabled (globeView ?ts None True)"
    "highlightTrip (globeView ?ts None True) = None" "trips (globeView ?ts None True) = ?ts"
    "\<not> enableWordCloud (globeView ?ts None False)" "\<not> interactionEnabled (globeView ?ts None False)"
    by (simp_all add: globeView_def)
  have w: "\<exists>t \<in> set (trips (globeView ?ts None True)). givesWord t"
    unfolding f(4) by (simp add: givesWord_def cityWord_def journey_def place_def truthy_def)
  have land: "Some ''land'' \<noteq> None" by simp
  from wordCloud_flag_alone_does_not_disable[of "globeView ?ts None True" "Some ''land''"]
    f(2,3) w land
  have "rendersWordCloud (globeView ?ts None True) (Some ''land'')"
    "wordCloudElements (globeView ?ts None True) = cloudLabels ?ts"
    unfolding f(4) by blast+
  moreover
  from wordCloud_flag_alone_does_not_disable[of "globeView ?ts None True" "None :: string option"]
  have "\<not> rendersWordCloud (globeView ?ts None True) (None :: string option)" by blast
  moreover from wordCloud_flag_alone_does_not_disable[of "globeView ?ts None False"] f(5,6)
  have "wordCloudElements (globeView ?ts None False) = []" by blast
  ultimately show ?thesis using f(1,2) by (simp add: sample_cloud)
qed

section \<open>Geometry cache: one fetch in flight\<close>

lemma loaderInv_iff:
  "loaderInv l =
     ((\<forall>p. p < fetches l \<longrightarrow> promises l p = Pending \<longrightarrow>
           dataFetchPromise l = Some p \<and> cachedWorldData l = None) \<and>
      (\<forall>p. dataFetchPromise l = Some p \<longrightarrow>
           p < fetches l \<and> (cachedWorldData l = None \<longrightarrow> promises l p = Pending)))"
proof -
  have "(\<forall>p \<in> set [0..<fetches l]. promises l p = Pending \<longrightarrow>
           dataFetchPromise l = Some p \<and> cachedWorldData l = None) =
        (\<forall>p. p < fetches l \<longrightarrow> promises l p = Pending \<longrightarrow>
           dataFetchPromise l = Some p \<and> cachedWorldData l = None)"
    by (simp add: Ball_def)
  moreover have "(case dataFetchPromise l of None \<Rightarrow> True
       | Some p \<Rightarrow> p < fetches l \<and> (cachedWorldData l = None \<longrightarrow> promises l p = Pending)) =
        (\<forall>p. dataFetchPromise l = Some p \<longrightarrow>
           p < fetches l \<and> (cachedWorldData l = None \<longrightarrow> promises l p = Pending))"
    by (cases "dataFetchPromise l") simp_all
  ultimately show ?thesis unfolding loaderInv_def by (rule arg_cong2[where f = "(\<and>)"])
qed

lemma loaderInv_pending:
  "loaderInv l \<Longrightarrow> p < fetches l \<Longrightarrow> promises l p = Pending \<Longrightarrow>
   dataFetchPromise l = Some p \<and> cachedWorldData l = None"
  unfolding loaderInv_iff by blast

lemma loaderInv_marker:
  "loaderInv l \<Longrightarrow> dataFetchPromise l = Some p \<Longrightarrow>
   p < fetches l \<and> (cachedWorldData l = None \<longrightarrow> promises l p = Pending)"
  unfolding loaderInv_iff by blast

lemma loaderInvI:
  assumes "\<And>p. p < fetches l \<Longrightarrow> promises l p = Pending \<Longrightarrow>
             dataFetchPromise l = Some p \<and> cachedWorldData l = None"
    and "\<And>p. dataFetchPromise l = Some p \<Longrightarrow>
             p < fetches l \<and> (cachedWorldData l = None \<longrightarrow> promises l p = Pending)"
  shows "loaderInv l"
  unfolding loaderInv_iff using assms by blast

lemma loaderInv_emptyLoader: "loaderInv emptyLoader"
  by (rule loaderInvI) (simp_all add: emptyLoader_def)

lemma settle_fields:
  "cachedWorldData (settle p dat l) = cachedWorldData l"
  "dataFetchPromise (settle p dat l) = dataFetchPromise l"
  "fetches (settle p dat l) = fetches l"
  "promises (settle p dat l) = (promises l)(p := Fulfilled dat)"
  by (simp_all add: settle_def)

lemma mount_cached_eq:
  "cachedWorldData l = Some g \<Longrightarrow> mount v l = l\<lparr>worldData := (worldData l)(v := Some g)\<rparr>"
  by (simp add: mount_def)

lemma mount_waiting_eq:
  "cachedWorldData l = None \<Longrightarrow> dataFetchPromise l = Some p \<Longrightarrow> promises l p = Pending \<Longrightarrow>
   mount v l = l\<lparr>worldData := (worldData l)(v := None),
                 subscribers := subscribers l @ [(v, p)]\<rparr>"
  by (simp add: mount_def)

lemma mount_idle_eq:
  "cachedWorldData l = None \<Longrightarrow> dataFetchPromise l = None \<Longrightarrow>
   mount v l =
     l\<lparr>worldData := (worldData l)(v := None), dataFetchPromise := Some (fetches l),
       promises := (promises l)(fetches l := Pending), fetches := Suc (fetches l),
       subscribers := subscribers l @ [(v, fetches l)]\<rparr>"
  by (simp add: mount_def)

lemma loaderInv_cong:
  assumes "cachedWorldData l' = cachedWorldData l" and "dataFetchPromise l' = dataFetchPromise l"
    and "promises l' = promises l" and "fetches l' = fetches l"
  shows "loaderInv l' = loaderInv l"
  unfolding loaderInv_iff assms by (rule refl)

lemma loaderInv_mount:
  assumes "loaderInv l"
  shows "loaderInv (mount v l)"
proof (cases "cachedWorldData l")
  case (Some g)
  have "loaderInv (l\<lparr>worldData := (worldData l)(v := Some g)\<rparr>) = loaderInv l"
    by (rule loaderInv_cong) simp_all
  with assms show ?thesis
    unfolding mount_cached_eq[OF Some] by simp
next
  case None
  show ?thesis
  proof (cases "dataFetchPromise l")
    case (Some p)
    with None loaderInv_marker[OF assms] have pend: "promises l p = Pending" by blast
    have "loaderInv (l\<lparr>worldData := (worldData l)(v := None),
                 subscribers := subscribers l @ [(v, p)]\<rparr>) = loaderInv l"
      by (rule loaderInv_cong) simp_all
    with assms show ?thesis
      unfolding mount_waiting_eq[OF None Some pend] by simp
  next
    case none: None
    have idle: "promises l q \<noteq> Pending" if "q < fetches l" for q
      using loaderInv_pending[OF assms that] none by auto
    show ?thesis
      unfolding mount_idle_eq[OF None none]
    proof (rule loaderInvI)
      fix p
      assume "p < fetches (l\<lparr>worldData := (worldData l)(v := None),
            dataFetchPromise := Some (fetches l),
            promises := (promises l)(fetches l := Pending), fetches := Suc (fetches l),
            subscribers := subscribers l @ [(v, fetches l)]\<rparr>)"
        and "promises (l\<lparr>worldData := (worldData l)(v := None),
            dataFetchPromise := Some (fetches l),
            promises := (promises l)(fetches l := Pending), fetches := Suc (fetches l),
            subscribers := subscribers l @ [(v, fetches l)]\<rparr>) p = Pending"
      then have "p = fetches l" using idle[of p] by (cases "p = fetches l") simp_all
      then show "dataFetchPromise (l\<lparr>worldData := (worldData l)(v := None),
            dataFetchPromise := Some (fetches l),
            promises := (promises l)(fetches l := Pending), fetches := Suc (fetches l),
            subscribers := subscribers l @ [(v, fetches l)]\<rparr>) = Some p \<and>
          cachedWorldData (l\<lparr>worldData := (worldData l)(v := None),
            dataFetchPromise := Some (fetches l),
            promises := (promises l)(fetches l := Pending), fetches := Suc (fetches l),
            subscribers := subscribers l @ [(v, fetches l)]\<rparr>) = None"
        using None by simp
    next
      fix p
      assume "dataFetchPromise (l\<lparr>worldData := (worldData l)(v := None),
            dataFetchPromise := Some (fetches l),
            promises := (promises l)(fetches l := Pending), fetches := Suc (fetches l),
            subscribers := subscribers l @ [(v, fetches l)]\<rparr>) = Some p"
      then show "p < fetches (l\<lparr>worldData := (worldData l)(v := None),
            dataFetchPromise := Some (fetches l),
            promises := (promises l)(fetches l := Pending), fetches := Suc (fetches l),
            subscribers := subscribers l @ [(v, fetches l)]\<rparr>) \<and>
          (cachedWorldData (l\<lparr>worldData := (worldData l)(v := None),
            dataFetchPromise := Some (fetches l),
            promises := (promises l)(fetches l := Pending), fetches := Suc (fetches l),
            subscribers := subscribers l @ [(v, fetches l)]\<rparr>) = None \<longrightarrow>
           promises (l\<lparr>worldData := (worldData l)(v := None),
            dataFetchPromise := Some (fetches l),
            promises := (promises l)(fetches l := Pending), fetches := Suc (fetches l),
            subscribers := subscribers l @ [(v, fetches l)]\<rparr>) p = Pending)"
        by auto
    qed
  qed
qed

lemma settled_none_pending:
  assumes "loaderInv l" and "p < fetches l" and "promises l p = Pending"
    and "q < fetches l" and "q \<noteq> p"
  shows "promises l q \<noteq> Pending"
  using loaderInv_pending[OF assms(1,2,3)] loaderInv_pending[OF assms(1,4)] assms(5) by auto

lemma loaderInv_fetchSucceeds:
  assumes "loaderInv l"
  shows "loaderInv (fetchSucceeds p g l)"
proof (cases "p < fetches l \<and> promises l p = Pending")
  case False
  then have "fetchSucceeds p g l = l" by (auto simp: fetchSucceeds_def)
  with assms show ?thesis by simp
next
  case True
  then have eq: "fetchSucceeds p g l = settle p (Some g) (l\<lparr>cachedWorldData := Some g\<rparr>)"
    by (simp add: fetchSucceeds_def)
  from True loaderInv_pending[OF assms] have m: "dataFetchPromise l = Some p" by blast
  show ?thesis
    unfolding eq
  proof (rule loaderInvI)
    fix q
    assume "q < fetches (settle p (Some g) (l\<lparr>cachedWorldData := Some g\<rparr>))"
      and "promises (settle p (Some g) (l\<lparr>cachedWorldData := Some g\<rparr>)) q = Pending"
    then have "q < fetches l" "q \<noteq> p" "promises l q = Pending"
      by (auto simp: settle_fields split: if_splits)
    with settled_none_pending[OF assms _ _ this(1,2)] True
    show "dataFetchPromise (settle p (Some g) (l\<lparr>cachedWorldData := Some g\<rparr>)) = Some q \<and>
          cachedWorldData (settle p (Some g) (l\<lparr>cachedWorldData := Some g\<rparr>)) = None"
      by blast
  next
    fix q
    assume "dataFetchPromise (settle p (Some g) (l\<lparr>cachedWorldData := Some g\<rparr>)) = Some q"
    then have "q = p" using m by (simp add: settle_fields)
    with True
    show "q < fetches (settle p (Some g) (l\<lparr>cachedWorldData := Some g\<rparr>)) \<and>
          (cachedWorldData (settle p (Some g) (l\<lparr>cachedWorldData := Some g\<rparr>)) = None \<longrightarrow>
           promises (settle p (Some g) (l\<lparr>cachedWorldData := Some g\<rparr>)) q = Pending)"
      by (simp add: settle_fields)
  qed
qed

lemma loaderInv_fetchFails:
  assumes "loaderInv l"
  shows "loaderInv (fetchFails p l)"
proof (cases "p < fetches l \<and> promises l p = Pending")
  case False
  then have "fetchFails p l = l" by (auto simp: fetchFails_def)
  with assms show ?thesis by simp
next
  case True
  then have eq: "fetchFails p l = settle p None (l\<lparr>dataFetchPromise := None\<rparr>)"
    by (simp add: fetchFails_def)
  show ?thesis
    unfolding eq
  proof (rule loaderInvI)
    fix q
    assume "q < fetches (settle p None (l\<lparr>dataFetchPromise := None\<rparr>))"
      and "promises (settle p None (l\<lparr>dataFetchPromise := None\<rparr>)) q = Pending"
    then have "q < fetches l" "q \<noteq> p" "promises l q = Pending"
      by (auto simp: settle_fields split: if_splits)
    with settled_none_pending[OF assms _ _ this(1,2)] True
    show "dataFetchPromise (settle p None (l\<lparr>dataFetchPromise := None\<rparr>)) = Some q \<and>
          cachedWorldData (settle p None (l\<lparr>dataFetchPromise := None\<rparr>)) = None"
      by blast
  next
    fix q
    assume "dataFetchPromise (settle p None (l\<lparr>dataFetchPromise := None\<rparr>)) = Some q"
    then show "q < fetches (settle p None (l\<lparr>dataFetchPromise := None\<rparr>)) \<and>
          (cachedWorldData (settle p None (l\<lparr>dataFetchPromise := None\<rparr>)) = None \<longrightarrow>
           promises (settle p None (l\<lparr>dataFetchPromise := None\<rparr>)) q = Pending)"
      by (simp add: settle_fields)
  qed
qed

lemma loaderInv_step: "loaderInv l \<Longrightarrow> loaderInv (loaderStep l ev)"
  by (cases ev) (simp_all add: loaderInv_mount loaderInv_fetchSucceeds loaderInv_fetchFails)

lemma loaderInv_foldl: "loaderInv l \<Longrightarrow> loaderInv (foldl loaderStep l evs)"
  by (induction evs arbitrary: l) (simp_all add: loaderInv_step)

lemma loaderInv_run: "loaderInv (loaderRun evs)"
  by (simp add: loaderRun_def loaderInv_foldl loaderInv_emptyLoader)

lemma length_le_one:
  assumes "distinct xs" and "\<And>x y. x \<in> set xs \<Longrightarrow> y \<in> set xs \<Longrightarrow> x = y"
  shows "length xs \<le> 1"
proof (cases xs)
  case Nil
  then show ?thesis by simp
next
  case (Cons a as)
  have "as = []"
  proof (cases as)
    case Nil
    then show ?thesis .
  next
    case (Cons b bs)
    have "a \<in> set xs" "b \<in> set xs" using \<open>xs = a # as\<close> Cons by simp_all
    then have "a = b" by (rule assms(2))
    moreover have "a \<noteq> b" using assms(1) \<open>xs = a # as\<close> Cons by simp
    ultimately show ?thesis by simp
  qed
  with Cons show ?thesis by simp
qed

lemma inFlight_at_most_one:
  assumes "loaderInv l"
  shows "length (inFlight l) \<le> 1"
proof (rule length_le_one)
  show "distinct (inFlight l)" by (simp add: inFlight_def)
next
  fix x y assume "x \<in> set (inFlight l)" "y \<in> set (inFlight l)"
  then have x: "x < fetches l" "promises l x = Pending"
    and y: "y < fetches l" "promises l y = Pending"
    by (simp_all add: inFlight_def)
  from loaderInv_pending[OF assms x] loaderInv_pending[OF assms y]
  show "x = y" by simp
qed

lemma mount_cached:
  assumes "cachedWorldData l = Some g"
  shows "fetches (mount v l) = fetches l" and "worldData (mount v l) v = Some g"
    and "inFlight (mount v l) = inFlight l"
  unfolding mount_cached_eq[OF assms] by (simp_all add: inFlight_def)

lemma mount_in_flight:
  assumes "loaderInv l" and "cachedWorldData l = None" and "dataFetchPromise l = Some p"
  shows "fetches (mount v l) = fetches l" and "dataFetchPromise (mount v l) = Some p"
    and "(v, p) \<in> set (subscribers (mount v l))" and "inFlight (mount v l) = inFlight l"
    and "promises l p = Pending"
proof -
  from loaderInv_marker[OF assms(1,3)] assms(2) show pend: "promises l p = Pending" by blast
  show "fetches (mount v l) = fetches l"
    "dataFetchPromise (mount v l) = Some p" "(v, p) \<in> set (subscribers (mount v l))"
    "inFlight (mount v l) = inFlight l"
    unfolding mount_waiting_eq[OF assms(2,3) pend] using assms(3) by (simp_all add: inFlight_def)
qed

lemma mount_idle:
  assumes "cachedWorldData l = None" and "dataFetchPromise l = None"
  shows "fetches (mount v l) = Suc (fetches l)"
    and "dataFetchPromise (mount v l) = Some (fetches l)"
  unfolding mount_idle_eq[OF assms] by simp_all

lemma fetchFails_clears:
  assumes "loaderInv l" and "p < fetches l" and "promises l p = Pending"
  shows "dataFetchPromise (fetchFails p l) = None" and "cachedWorldData (fetchFails p l) = None"
    and "inFlight (fetchFails p l) = []" and "fetches (fetchFails p l) = fetches l"
proof -
  have eq: "fetchFails p l = settle p None (l\<lparr>dataFetchPromise := None\<rparr>)"
    using assms(2,3) by (simp add: fetchFails_def)
  show m: "dataFetchPromise (fetchFails p l) = None" and "fetches (fetchFails p l) = fetches l"
    unfolding eq by (simp_all add: settle_fields)
  show "cachedWorldData (fetchFails p l) = None"
    unfolding eq using loaderInv_pending[OF assms] by (simp add: settle_fields)
  have inv: "loaderInv (fetchFails p l)" using assms(1) by (rule loaderInv_fetchFails)
  have "promises (fetchFails p l) q \<noteq> Pending" if "q < fetches (fetchFails p l)" for q
    using loaderInv_pending[OF inv that] m by auto
  then show "inFlight (fetchFails p l) = []"
    by (simp add: inFlight_def filter_empty_conv)
qed

lemma mount_while_waiting:
  assumes "cachedWorldData l = None" and "dataFetchPromise l = Some p"
    and "promises l p = Pending"
  shows "cachedWorldData (mount v l) = None \<and> dataFetchPromise (mount v l) = Some p \<and>
         promises (mount v l) p = Pending \<and> fetches (mount v l) = fetches l"
  unfolding mount_waiting_eq[OF assms] using assms by simp

lemma mounts_while_waiting:
  assumes "cachedWorldData l = None" and "dataFetchPromise l = Some p"
    and "promises l p = Pending"
  shows "fetches (foldl loaderStep l (map Mount vs)) = fetches l"
  using assms
proof (induction vs arbitrary: l)
  case Nil
  show ?case by simp
next
  case (Cons v vs)
  from mount_while_waiting[OF Cons.prems, of v] Cons.IH[of "mount v l"]
  show ?case by simp
qed

lemma mounts_fetch_once:
  "fetches (loaderRun (map Mount (v # vs)) :: 'g Loader) = 1"
proof -
  let ?e = "emptyLoader :: 'g Loader"
  have first: "cachedWorldData (mount v ?e) = None"
    "dataFetchPromise (mount v ?e) = Some 0"
    "promises (mount v ?e) 0 = Pending" "fetches (mount v ?e) = 1"
    by (simp_all add: mount_def emptyLoader_def)
  from mounts_while_waiting[OF first(1,2,3), of vs] first(4)
  show ?thesis by (simp add: loaderRun_def)
qed

text \<open>
  C8. In every state the loader reaches, at most one fetch is in flight. A view mounted
  while the result is cached gets it without a fetch; a view mounted while the marker
  holds a promise finds that promise pending and subscribes to it without a fetch; so any
  number of views mounted before the fetch settles cause one fetch. When the fetch fails,
  the marker is cleared, nothing is in flight and the next mount fetches again.
\<close>

theorem geometry_loader_single_flight:
  fixes evs :: "'g loader_event list"
  shows
  "length (inFlight (loaderRun evs)) \<le> 1 \<and>
   (cachedWorldData (loaderRun evs) = Some g \<longrightarrow>
      fetches (mount v (loaderRun evs)) = fetches (loaderRun evs) \<and>
      worldData (mount v (loaderRun evs)) v = Some g) \<and>
   (cachedWorldData (loaderRun evs) = None \<and> dataFetchPromise (loaderRun evs) = Some p \<longrightarrow>
      promises (loaderRun evs) p = Pending \<and>
      fetches (mount v (loaderRun evs)) = fetches (loaderRun evs) \<and>
      dataFetchPromise (mount v (loaderRun evs)) = Some p \<and>
      (v, p) \<in> set (subscribers (mount v (loaderRun evs)))) \<and>
   fetches (loaderRun (map Mount (v1 # v2 # vs)) :: 'g Loader) = 1 \<and>
   (q < fetches (loaderRun evs) \<and> promises (loaderRun evs) q = Pending \<longrightarrow>
      dataFetchPromise (fetchFails q (loaderRun evs)) = None \<and>
      inFlight (fetchFails q (loaderRun evs)) = [] \<and>
      fetches (mount v (fetchFails q (loaderRun evs))) = Suc (fetches (loaderRun evs)))"
proof -
  let ?l = "loaderRun evs"
  have inv: "loaderInv ?l" by (rule loaderInv_run)
  have one: "length (inFlight ?l) \<le> 1" using inv by (rule inFlight_at_most_one)
  have cached: "fetches (mount v ?l) = fetches ?l \<and> worldData (mount v ?l) v = Some g"
    if "cachedWorldData ?l = Some g"
    using mount_cached[OF that, of v] by simp
  have waiting: "promises ?l p = Pending \<and> fetches (mount v ?l) = fetches ?l \<and>
      dataFetchPromise (mount v ?l) = Some p \<and> (v, p) \<in> set (subscribers (mount v ?l))"
    if "cachedWorldData ?l = None" "dataFetchPromise ?l = Some p"
    using mount_in_flight(1-4)[OF inv that, of v] mount_in_flight(5)[OF inv that] by simp
  have failed: "dataFetchPromise (fetchFails q ?l) = None \<and> inFlight (fetchFails q ?l) = [] \<and>
      fetches (mount v (fetchFails q ?l)) = Suc (fetches ?l)"
    if "q < fetches ?l" "promises ?l q = Pending"
  proof -
    note f = fetchFails_clears[OF inv that]
    from mount_idle(1)[OF f(2) f(1), of v] f show ?thesis by simp
  qed
  have twice: "fetches (loaderRun (map Mount (v1 # v2 # vs)) :: 'g Loader) = 1"
    by (rule mounts_fetch_once)
  from one cached waiting failed twice
  show ?thesis by blast
qed

theorem geometry_loader_single_flight_witness:
  "cachedWorldData (loaderRun [Mount 1, Mount 2] :: string Loader) = None \<and>
   dataFetchPromise (loaderRun [Mount 1, Mount 2] :: string Loader) = Some 0 \<and>
   fetches (loaderRun [Mount 1, Mount 2] :: string Loader) = 1 \<and>
   inFlight (loaderRun [Mount 1, Mount 2] :: string Loader) = [0] \<and>
   fetches (mount 3 (loaderRun [Mount 1, Mount 2] :: string Loader)) = 1 \<and>
   (3, 0) \<in> set (subscribers (mount 3 (loaderRun [Mount 1, Mount 2] :: string Loader))) \<and>
   dataFetchPromise (fetchFails 0 (loaderRun [Mount 1, Mount 2] :: string Loader)) = None \<and>
   fetches (mount 3 (fetchFails 0 (loaderRun [Mount 1, Mount 2] :: string Loader))) = 2 \<and>
   cachedWorldData (loaderRun [Mount 1, Mount 2, FetchSucceeds 0 ''land'']) = Some ''land'' \<and>
   worldData (loaderRun [Mount 1, Mount 2, FetchSucceeds 0 ''land'']) 1 = Some ''land'' \<and>
   worldData (loaderRun [Mount 1, Mount 2, FetchSucceeds 0 ''land'']) 2 = Some ''land'' \<and>
   fetches (mount 3 (loaderRun [Mount 1, Mount 2, FetchSucceeds 0 ''land''])) = 1 \<and>
   worldData (mount 3 (loaderRun [Mount 1, Mount 2, FetchSucceeds 0 ''land''])) 3 = Some ''land''"
proof -
  let ?L = "loaderRun [Mount 1, Mount 2] :: string Loader"
  let ?S = "loaderRun [Mount 1, Mount 2, FetchSucceeds 0 ''land'']"
  have L: "cachedWorldData ?L = None" "dataFetchPromise ?L = Some 0" "fetches ?L = 1"
    "promises ?L 0 = Pending"
    by (simp_all add: loaderRun_def mount_def emptyLoader_def)
  have fl: "inFlight ?L = [0]"
    using L(3,4) by (simp add: inFlight_def)
  have S: "cachedWorldData ?S = Some ''land''" "fetches ?S = 1"
    "worldData ?S 1 = Some ''land''" "worldData ?S 2 = Some ''land''"
    by (simp_all add: loaderRun_def mount_def emptyLoader_def fetchSucceeds_def settle_def
        deliver_def)
  have q: "0 < fetches ?L \<and> promises ?L 0 = Pending" using L(3,4) by simp
  from geometry_loader_single_flight[of "[Mount 1, Mount 2]" "''land''" 3 0 1 2 "[]" 0] L(1,2) q
  have "fetches (mount 3 ?L) = fetches ?L" "(3, 0) \<in> set (subscribers (mount 3 ?L))"
    "dataFetchPromise (fetchFails 0 ?L) = None"
    "fetches (mount 3 (fetchFails 0 ?L)) = Suc (fetches ?L)"
    by blast+
  moreover
  from geometry_loader_single_flight[of "[Mount 1, Mount 2, FetchSucceeds 0 ''land'']"
      "''land''" 3 0 1 2 "[]" 0] S(1)
  have "fetches (mount 3 ?S) = fetches ?S" "worldData (mount 3 ?S) 3 = Some ''land''"
    by blast+
  ultimately show ?thesis using L fl S by simp
qed

end
